theory Spec2Isabelle
  imports Complex_Main
begin

section \<open>The rent-versus-sell calculator (calculator.js)\<close>

text \<open>
  The calculator projects, year by year, what a mortgaged property is worth to an owner
  who keeps renting it out, against selling it today and investing the proceeds.

  Conventions of the embedding.
  \<^item> In the projection a JavaScript number that holds an amount of money or a percentage
    is a \<open>real\<close> and its arithmetic is exact: what is proved of the year records relates
    their fields to each other. The two amortization functions are modelled twice: over
    the reals, as the projection uses them, and over IEEE doubles with their rounding,
    infinities and NaN (\<open>calculateMonthlyPayment_f64\<close>, \<open>calculateRemainingBalance_f64\<close>),
    where a property of their values depends on the rounding.
  \<^item> A JavaScript number that counts years or months is a \<open>nat\<close>. Every such number of
    the program is a non-negative integer: the loop counter starts at 0,
    \<open>getMonthsElapsed\<close> returns \<open>Math.max(0, \<dots>)\<close> of an integer expression, the years
    to hold and the mortgage term are read with \<open>parseInt\<close> (the former clamped to
    1..30, the latter chosen from a select). \<open>Math.pow\<close> with such an exponent is \<open>^\<close>.
  \<^item> A division by a variable is \<open>js_div\<close>, which is \<open>None\<close> when the divisor is 0.
    JavaScript goes on with \<open>NaN\<close> or an infinity there, values the reals do not have,
    so \<open>None\<close> says that the computation left the model. A division by a non-zero
    literal (\<open>/ 100\<close>, \<open>/ 12\<close>) is the division of the reals.
  \<^item> The text of the form fields is not modelled: a field is the number it parses to.
    On a number \<open>x || d\<close> is \<open>d\<close> when \<open>x\<close> is 0 and \<open>x\<close> otherwise.
  \<^item> The current date, read by \<open>new Date()\<close>, is a parameter.
\<close>

subsection \<open>Numbers\<close>

definition js_div :: "real \<Rightarrow> real \<Rightarrow> real option" where
  "js_div a b = (if b = 0 then None else Some (a / b))"

definition orDefault :: "nat \<Rightarrow> nat \<Rightarrow> nat" where
  "orDefault x d = (if x = 0 then d else x)"

subsection \<open>Amortization\<close>

text \<open>
  \<^verbatim>\<open>
  function calculateMonthlyPayment(principal, annualRate, years) {
    if (annualRate === 0) {
      return principal / (years * 12);
    }
    const monthlyRate = annualRate / 100 / 12;
    const numPayments = years * 12;
    const factor = Math.pow(1 + monthlyRate, numPayments);
    return principal * (monthlyRate * factor) / (factor - 1);
  }
  \<close>
\<close>

definition calculateMonthlyPayment :: "real \<Rightarrow> real \<Rightarrow> nat \<Rightarrow> real option" where
  "calculateMonthlyPayment principal' annualRate years =
     (if annualRate = 0 then js_div principal' (real (years * 12))
      else
        let monthlyRate = annualRate / 100 / 12;
            numPayments = years * 12;
            factor = (1 + monthlyRate) ^ numPayments
        in js_div (principal' * (monthlyRate * factor)) (factor - 1))"

text \<open>
  \<^verbatim>\<open>
  function calculateRemainingBalance(principal, monthlyRate, totalMonths, monthsPaid) {
    if (monthlyRate === 0) {
      // Edge case: 0% interest
      return principal - (principal / totalMonths) * monthsPaid;
    }
    const factor = Math.pow(1 + monthlyRate, totalMonths);
    const paidFactor = Math.pow(1 + monthlyRate, monthsPaid);
    const balance = (principal * (factor - paidFactor)) / (factor - 1);
    return Math.max(0, balance);
  }
  \<close>
  The zero-rate branch returns before the \<open>Math.max\<close> of the other branch.
\<close>

definition calculateRemainingBalance :: "real \<Rightarrow> real \<Rightarrow> nat \<Rightarrow> nat \<Rightarrow> real option" where
  "calculateRemainingBalance principal' monthlyRate totalMonths monthsPaid =
     (if monthlyRate = 0 then
        (case js_div principal' (real totalMonths) of
           None \<Rightarrow> None
         | Some perMonth \<Rightarrow> Some (principal' - perMonth * real monthsPaid))
      else
        let factor = (1 + monthlyRate) ^ totalMonths;
            paidFactor = (1 + monthlyRate) ^ monthsPaid
        in case js_div (principal' * (factor - paidFactor)) (factor - 1) of
             None \<Rightarrow> None
           | Some balance \<Rightarrow> Some (max 0 balance))"

subsection \<open>IEEE double precision\<close>

text \<open>
  A JavaScript number is an IEEE 754 binary64 value: a finite double, one of the two
  infinities, or NaN. The finite doubles are the reals \<open>m * 2 ^ (e - 52)\<close> with an integer
  \<open>m\<close> of magnitude below \<open>2 ^ 53\<close> and an exponent \<open>e\<close> from -1022 to 1023.
  The sign of zero is not modelled, zero is \<open>+0\<close>: the divisors of the two amortization
  functions that can be zero are \<open>years * 12\<close>, \<open>totalMonths\<close> and \<open>factor - 1\<close>, a
  difference of equal numbers, and all three are \<open>+0\<close> in JavaScript.
\<close>

datatype number = Fin real | PInf | NInf | NaN

text \<open>
  Rounding to the nearest integer, a tie to the even one; the exponent of the binade of a
  real (that of the subnormal numbers is -1022); the distance between neighbouring
  doubles of that binade; the nearest double, a tie to the even mantissa. A real whose
  rounded value reaches \<open>2 ^ 1024\<close> becomes an infinity.
\<close>

definition rne :: "real \<Rightarrow> int" where
  "rne x = (let f = \<lfloor>x\<rfloor>; d = x - of_int f
            in if d < 1 / 2 then f else if 1 / 2 < d then f + 1
               else if even f then f else f + 1)"

definition binade :: "real \<Rightarrow> int" where
  "binade x = (if \<bar>x\<bar> < 2 powi (- 1022) then - 1022
               else Max (set (filter (\<lambda>k. 2 powi k \<le> \<bar>x\<bar>) [- 1022..1023])))"

definition quantum :: "real \<Rightarrow> real" where
  "quantum x = 2 powi (binade x - 52)"

definition rounded :: "real \<Rightarrow> real" where
  "rounded x = quantum x * of_int (rne (x / quantum x))"

definition huge :: real where
  "huge = 2 ^ 1024"

definition fl :: "real \<Rightarrow> number" where
  "fl x = (if huge \<le> rounded x then PInf
           else if rounded x \<le> - huge then NInf
           else Fin (rounded x))"

definition is_double :: "real \<Rightarrow> bool" where
  "is_double x = (fl x = Fin x)"

text \<open>
  The operations of JavaScript on numbers. Each is the exact operation followed by one
  rounding, with the IEEE rules for the infinities and NaN. A comparison with NaN is
  false.
\<close>

fun f64_le :: "number \<Rightarrow> number \<Rightarrow> bool" where
  "f64_le NaN b = False"
| "f64_le a NaN = False"
| "f64_le NInf b = True"
| "f64_le a PInf = True"
| "f64_le PInf b = False"
| "f64_le a NInf = False"
| "f64_le (Fin a) (Fin b) = (a \<le> b)"

fun f64_neg :: "number \<Rightarrow> number" where
  "f64_neg (Fin a) = Fin (- a)"
| "f64_neg PInf = NInf"
| "f64_neg NInf = PInf"
| "f64_neg NaN = NaN"

fun f64_add :: "number \<Rightarrow> number \<Rightarrow> number" where
  "f64_add NaN b = NaN"
| "f64_add a NaN = NaN"
| "f64_add PInf NInf = NaN"
| "f64_add NInf PInf = NaN"
| "f64_add PInf b = PInf"
| "f64_add a PInf = PInf"
| "f64_add NInf b = NInf"
| "f64_add a NInf = NInf"
| "f64_add (Fin a) (Fin b) = fl (a + b)"

definition f64_sub :: "number \<Rightarrow> number \<Rightarrow> number" where
  "f64_sub a b = f64_add a (f64_neg b)"

fun f64_mul :: "number \<Rightarrow> number \<Rightarrow> number" where
  "f64_mul NaN b = NaN"
| "f64_mul a NaN = NaN"
| "f64_mul (Fin a) (Fin b) = fl (a * b)"
| "f64_mul (Fin a) PInf = (if a = 0 then NaN else if 0 < a then PInf else NInf)"
| "f64_mul (Fin a) NInf = (if a = 0 then NaN else if 0 < a then NInf else PInf)"
| "f64_mul PInf (Fin b) = (if b = 0 then NaN else if 0 < b then PInf else NInf)"
| "f64_mul NInf (Fin b) = (if b = 0 then NaN else if 0 < b then NInf else PInf)"
| "f64_mul PInf PInf = PInf"
| "f64_mul PInf NInf = NInf"
| "f64_mul NInf PInf = NInf"
| "f64_mul NInf NInf = PInf"

fun f64_div :: "number \<Rightarrow> number \<Rightarrow> number" where
  "f64_div NaN b = NaN"
| "f64_div a NaN = NaN"
| "f64_div (Fin a) (Fin b) =
     (if b = 0 then (if a = 0 then NaN else if 0 < a then PInf else NInf) else fl (a / b))"
| "f64_div (Fin a) PInf = Fin 0"
| "f64_div (Fin a) NInf = Fin 0"
| "f64_div PInf (Fin b) = (if 0 \<le> b then PInf else NInf)"
| "f64_div NInf (Fin b) = (if 0 \<le> b then NInf else PInf)"
| "f64_div PInf PInf = NaN"
| "f64_div PInf NInf = NaN"
| "f64_div NInf PInf = NaN"
| "f64_div NInf NInf = NaN"

text \<open>
  \<open>Math.pow\<close> with a count as its exponent. ECMAScript leaves the precision of \<open>Math.pow\<close>
  to the implementation; here it is the correctly rounded power. Powers with exponent 0
  or 1 and powers of 1 are exact, so that no rounding of \<open>Math.pow\<close> takes part in them.
  \<open>Math.max\<close> is NaN as soon as one argument is.
\<close>

fun f64_pow :: "number \<Rightarrow> nat \<Rightarrow> number" where
  "f64_pow b 0 = Fin 1"
| "f64_pow (Fin a) n = fl (a ^ n)"
| "f64_pow PInf n = PInf"
| "f64_pow NInf n = (if even n then PInf else NInf)"
| "f64_pow NaN n = NaN"

fun f64_max :: "number \<Rightarrow> number \<Rightarrow> number" where
  "f64_max NaN b = NaN"
| "f64_max a NaN = NaN"
| "f64_max a b = (if f64_le a b then b else a)"

text \<open>
  The two amortization functions over these numbers, operation by operation in the order
  of the source. The arguments are finite doubles; a count is converted exactly (every
  count below \<open>2 ^ 53\<close> is a double). \<open>factor_f64\<close> is the expression
  \<open>Math.pow(1 + monthlyRate, months)\<close> that \<open>calculateRemainingBalance\<close> evaluates twice.
\<close>

definition calculateMonthlyPayment_f64 :: "real \<Rightarrow> real \<Rightarrow> nat \<Rightarrow> number" where
  "calculateMonthlyPayment_f64 principal' annualRate years =
     (if annualRate = 0 then f64_div (Fin principal') (Fin (real (years * 12)))
      else
        let monthlyRate = f64_div (f64_div (Fin annualRate) (Fin 100)) (Fin 12);
            numPayments = years * 12;
            factor = f64_pow (f64_add (Fin 1) monthlyRate) numPayments
        in f64_div (f64_mul (Fin principal') (f64_mul monthlyRate factor))
             (f64_sub factor (Fin 1)))"

definition factor_f64 :: "real \<Rightarrow> nat \<Rightarrow> number" where
  "factor_f64 monthlyRate months = f64_pow (f64_add (Fin 1) (Fin monthlyRate)) months"

definition calculateRemainingBalance_f64 :: "real \<Rightarrow> real \<Rightarrow> nat \<Rightarrow> nat \<Rightarrow> number" where
  "calculateRemainingBalance_f64 principal' monthlyRate totalMonths monthsPaid =
     (if monthlyRate = 0 then
        f64_sub (Fin principal')
          (f64_mul (f64_div (Fin principal') (Fin (real totalMonths))) (Fin (real monthsPaid)))
      else
        let factor = factor_f64 monthlyRate totalMonths;
            paidFactor = factor_f64 monthlyRate monthsPaid;
            balance = f64_div (f64_mul (Fin principal') (f64_sub factor paidFactor))
                        (f64_sub factor (Fin 1))
        in f64_max (Fin 0) balance)"

subsection \<open>Dates\<close>

text \<open>
  A date is the pair that \<open>getMonthsElapsed\<close> reads from it: \<open>getFullYear()\<close> and
  \<open>getMonth()\<close>. The function returns \<open>Math.max(0, months - 1)\<close>.
\<close>

record date =
  fullYear :: int
  month :: int

definition getMonthsElapsed :: "date \<Rightarrow> date \<Rightarrow> nat" where
  "getMonthsElapsed originDate now =
     (let months = (fullYear now - fullYear originDate) * 12 + (month now - month originDate)
      in nat (max 0 (months - 1)))"

subsection \<open>Inputs and their validation\<close>

record inputs =
  purchasePrice :: real
  loanOriginDate :: date
  originalLoanAmount :: real
  interestRate :: real
  mortgageTerm :: nat
  primaryResidence :: bool
  currentHomeValue :: real
  monthlyHOA :: real
  monthlyTaxes :: real
  monthlyInsurance :: real
  monthlyMaintenance :: real
  rentalPrice :: real
  annualRentIncrease :: real
  propertyMgmtFee :: real
  rentalTaxRate :: real
  homeAppreciation :: real
  costInflation :: real
  sellingFees :: real
  capitalGainsTax :: real
  investmentReturn :: real
  yearsToHold :: nat

text \<open>
  \<open>clampInput\<close> returns \<open>Math.min(max, Math.max(min, val))\<close> and writes it back to the
  field. The upper bound \<open>Infinity\<close> is \<open>None\<close>. The integer variant is the call with
  \<open>isInt = true\<close>.
\<close>

definition clampInput :: "real \<Rightarrow> real \<Rightarrow> real option \<Rightarrow> real" where
  "clampInput val lo hi = (case hi of None \<Rightarrow> max lo val | Some h \<Rightarrow> min h (max lo val))"

definition clampInputInt :: "nat \<Rightarrow> nat \<Rightarrow> nat \<Rightarrow> nat" where
  "clampInputInt val lo hi = min hi (max lo val)"

definition validateInputs :: "inputs \<Rightarrow> inputs" where
  "validateInputs i = i\<lparr>
     purchasePrice := clampInput (purchasePrice i) 0 None,
     originalLoanAmount := clampInput (originalLoanAmount i) 0 None,
     interestRate := clampInput (interestRate i) 0 (Some 30),
     currentHomeValue := clampInput (currentHomeValue i) 0 None,
     monthlyHOA := clampInput (monthlyHOA i) 0 None,
     monthlyTaxes := clampInput (monthlyTaxes i) 0 None,
     monthlyInsurance := clampInput (monthlyInsurance i) 0 None,
     monthlyMaintenance := clampInput (monthlyMaintenance i) 0 None,
     rentalPrice := clampInput (rentalPrice i) 0 None,
     annualRentIncrease := clampInput (annualRentIncrease i) 0 (Some 20),
     propertyMgmtFee := clampInput (propertyMgmtFee i) 0 (Some 100),
     rentalTaxRate := clampInput (rentalTaxRate i) 0 (Some 100),
     homeAppreciation := clampInput (homeAppreciation i) (- 20) (Some 30),
     costInflation := clampInput (costInflation i) 0 (Some 20),
     sellingFees := clampInput (sellingFees i) 0 (Some 100),
     capitalGainsTax := clampInput (capitalGainsTax i) 0 (Some 100),
     investmentReturn := clampInput (investmentReturn i) (- 50) (Some 50),
     yearsToHold := clampInputInt (yearsToHold i) 1 30\<rparr>"

text \<open>
  \<open>updateMonthlyPaymentDisplay\<close> computes the fixed principal-and-interest payment from
  the loan amount, the rate and \<open>parseInt(mortgageTerm) || 30\<close>, shows it and returns it.
\<close>

definition updateMonthlyPaymentDisplay :: "inputs \<Rightarrow> real option" where
  "updateMonthlyPaymentDisplay i =
     (let loanAmount = originalLoanAmount i;
          interestRate = interestRate i;
          term = orDefault (mortgageTerm i) 30
      in calculateMonthlyPayment loanAmount interestRate term)"

subsection \<open>The year records\<close>

record breakdown =
  rent :: real
  expenses :: real

record yearData =
  year :: nat
  homeValue :: real
  loanBalance :: real
  equity :: real
  netRentalCashFlow :: real
  cumulativeRentalCashFlow :: real
  simpleRentalNetWorth :: real
  sellingCosts :: real
  capitalGainsTaxOwed :: real
  netAfterTaxProceeds :: real
  sellYear0Total :: real
  betterOption :: string
  monthlyBreakdown :: breakdown

text \<open>
  The variables that the loop of \<open>calculate\<close> updates: the running total of the rental
  cash flow, the year-0 baseline of the sale, and the array of the records pushed so far.
\<close>

record loopState =
  st_cumulativeRentalCashFlow :: real
  st_sellYear0Baseline :: real
  st_yearlyData :: "yearData list"

subsection \<open>The figures of one year\<close>

text \<open>
  Each \<open>const\<close> of \<open>calculate\<close> and of its loop body is a definition of its own, a
  function of what the source computes it from: the validated inputs \<open>i\<close>, the monthly
  payment, the months elapsed, the loop counter \<open>yr\<close> (the source's \<open>year\<close>) and that
  year's loan balance. A name that is also a field of the year record carries a prime.
  \<open>yearsToInvest\<close> and \<open>investedValue\<close> are computed by the source and stored nowhere;
  they are left out.
\<close>

definition monthlyRate :: "inputs \<Rightarrow> real" where
  "monthlyRate i = interestRate i / 100 / 12"

definition totalLoanMonths :: "inputs \<Rightarrow> nat" where
  "totalLoanMonths i = orDefault (mortgageTerm i) 30 * 12"

definition futureMonthsElapsed :: "nat \<Rightarrow> nat \<Rightarrow> nat" where
  "futureMonthsElapsed monthsElapsed yr = monthsElapsed + yr * 12"

definition homeValue' :: "inputs \<Rightarrow> nat \<Rightarrow> real" where
  "homeValue' i yr = currentHomeValue i * (1 + homeAppreciation i / 100) ^ yr"

definition loanBalance' :: "inputs \<Rightarrow> nat \<Rightarrow> nat \<Rightarrow> real option" where
  "loanBalance' i monthsElapsed yr =
     calculateRemainingBalance (originalLoanAmount i) (monthlyRate i) (totalLoanMonths i)
       (futureMonthsElapsed monthsElapsed yr)"

definition equity' :: "inputs \<Rightarrow> nat \<Rightarrow> real \<Rightarrow> real" where
  "equity' i yr balance = homeValue' i yr - balance"

text \<open>\<open>Math.max(0, year - 1)\<close>: at year 0 the difference is -1.\<close>

definition rentGrowthExponent :: "nat \<Rightarrow> nat" where
  "rentGrowthExponent yr = nat (max 0 (int yr - 1))"

definition currentRent :: "inputs \<Rightarrow> nat \<Rightarrow> real" where
  "currentRent i yr = rentalPrice i * (1 + annualRentIncrease i / 100) ^ rentGrowthExponent yr"

definition annualRentalIncome :: "inputs \<Rightarrow> nat \<Rightarrow> real" where
  "annualRentalIncome i yr = currentRent i yr * 12"

definition annualMgmtFee :: "inputs \<Rightarrow> nat \<Rightarrow> real" where
  "annualMgmtFee i yr = annualRentalIncome i yr * (propertyMgmtFee i / 100)"

definition inflationFactor :: "inputs \<Rightarrow> nat \<Rightarrow> real" where
  "inflationFactor i yr = (1 + costInflation i / 100) ^ yr"

definition inflatedTaxes :: "inputs \<Rightarrow> nat \<Rightarrow> real" where
  "inflatedTaxes i yr = monthlyTaxes i * inflationFactor i yr"

definition inflatedInsurance :: "inputs \<Rightarrow> nat \<Rightarrow> real" where
  "inflatedInsurance i yr = monthlyInsurance i * inflationFactor i yr"

definition inflatedHOA :: "inputs \<Rightarrow> nat \<Rightarrow> real" where
  "inflatedHOA i yr = monthlyHOA i * inflationFactor i yr"

definition inflatedMaintenance :: "inputs \<Rightarrow> nat \<Rightarrow> real" where
  "inflatedMaintenance i yr = monthlyMaintenance i * inflationFactor i yr"

definition monthlyOwnershipCost :: "inputs \<Rightarrow> real \<Rightarrow> nat \<Rightarrow> real" where
  "monthlyOwnershipCost i monthlyPI yr =
     monthlyPI + inflatedTaxes i yr + inflatedInsurance i yr + inflatedHOA i yr
       + inflatedMaintenance i yr"

definition annualOwnershipCosts :: "inputs \<Rightarrow> real \<Rightarrow> nat \<Rightarrow> real" where
  "annualOwnershipCosts i monthlyPI yr = monthlyOwnershipCost i monthlyPI yr * 12"

definition grossRentalProfit :: "inputs \<Rightarrow> real \<Rightarrow> nat \<Rightarrow> real" where
  "grossRentalProfit i monthlyPI yr =
     annualRentalIncome i yr - annualMgmtFee i yr - annualOwnershipCosts i monthlyPI yr"

definition rentalTax :: "inputs \<Rightarrow> real \<Rightarrow> nat \<Rightarrow> real" where
  "rentalTax i monthlyPI yr =
     (if grossRentalProfit i monthlyPI yr > 0
      then grossRentalProfit i monthlyPI yr * (rentalTaxRate i / 100) else 0)"

definition netRentalCashFlow' :: "inputs \<Rightarrow> real \<Rightarrow> nat \<Rightarrow> real" where
  "netRentalCashFlow' i monthlyPI yr = grossRentalProfit i monthlyPI yr - rentalTax i monthlyPI yr"

definition yearCashFlow :: "inputs \<Rightarrow> real \<Rightarrow> nat \<Rightarrow> real" where
  "yearCashFlow i monthlyPI yr = (if yr = 0 then 0 else netRentalCashFlow' i monthlyPI yr)"

definition sellingCosts' :: "inputs \<Rightarrow> nat \<Rightarrow> real" where
  "sellingCosts' i yr = homeValue' i yr * (sellingFees i / 100)"

definition netSaleProceeds :: "inputs \<Rightarrow> nat \<Rightarrow> real \<Rightarrow> real" where
  "netSaleProceeds i yr balance = homeValue' i yr - balance - sellingCosts' i yr"

definition capitalGain :: "inputs \<Rightarrow> nat \<Rightarrow> real" where
  "capitalGain i yr = homeValue' i yr - purchasePrice i"

definition isUnderwater :: "inputs \<Rightarrow> nat \<Rightarrow> real \<Rightarrow> bool" where
  "isUnderwater i yr balance = (netSaleProceeds i yr balance < 0)"

definition PRIMARY_RESIDENCE_EXEMPTION_CAP :: real where
  "PRIMARY_RESIDENCE_EXEMPTION_CAP = 500000"

text \<open>
  \<^verbatim>\<open>
  let capitalGainsTaxOwed = 0;
  if (capitalGain > 0) {
    if (isUnderwater) {
      capitalGainsTaxOwed = 0;
    } else if (isPrimaryResidence && year <= 3) {
      const taxableGain = Math.max(0, capitalGain - PRIMARY_RESIDENCE_EXEMPTION_CAP);
      capitalGainsTaxOwed = taxableGain * (capitalGainsTax / 100);
    } else {
      capitalGainsTaxOwed = capitalGain * (capitalGainsTax / 100);
    }
  }
  \<close>
\<close>

definition capitalGainsTaxOwed' :: "inputs \<Rightarrow> nat \<Rightarrow> real \<Rightarrow> real" where
  "capitalGainsTaxOwed' i yr balance =
     (if capitalGain i yr > 0 then
        (if isUnderwater i yr balance then 0
         else if primaryResidence i \<and> yr \<le> 3 then
           (let taxableGain = max 0 (capitalGain i yr - PRIMARY_RESIDENCE_EXEMPTION_CAP)
            in taxableGain * (capitalGainsTax i / 100))
         else capitalGain i yr * (capitalGainsTax i / 100))
      else 0)"

definition netAfterTaxProceeds' :: "inputs \<Rightarrow> nat \<Rightarrow> real \<Rightarrow> real" where
  "netAfterTaxProceeds' i yr balance =
     netSaleProceeds i yr balance - capitalGainsTaxOwed' i yr balance"

subsection \<open>The loop\<close>

text \<open>
  One pass through the body of \<open>for (let year = 0; year <= yearsToHold; year++)\<close>. It
  adds the year's cash flow to the running total, captures the baseline at year 0,
  computes the sell trajectory value and the net worth of holding
  (\<open>netAfterTaxProceeds + cumulativeRentalCashFlow\<close>, set to 0 when
  \<open>year === 0 && netAfterTaxProceeds > 0\<close>), and pushes the year's record.
\<close>

definition yearBody :: "inputs \<Rightarrow> real \<Rightarrow> nat \<Rightarrow> nat \<Rightarrow> loopState \<Rightarrow> loopState option" where
  "yearBody i monthlyPI monthsElapsed yr st =
     (case loanBalance' i monthsElapsed yr of
        None \<Rightarrow> None
      | Some balance \<Rightarrow>
     (let cumulativeRentalCashFlow' =
            st_cumulativeRentalCashFlow st + yearCashFlow i monthlyPI yr;
          sellYear0Baseline' =
            (if yr = 0 then netAfterTaxProceeds' i yr balance else st_sellYear0Baseline st);
          sellYear0Total' =
            (if sellYear0Baseline' > 0
             then sellYear0Baseline' * (1 + investmentReturn i / 100) ^ yr
             else sellYear0Baseline');
          simpleRentalNetWorth' =
            (if yr = 0 \<and> netAfterTaxProceeds' i yr balance > 0 then 0
             else netAfterTaxProceeds' i yr balance + cumulativeRentalCashFlow')
      in Some \<lparr>
           st_cumulativeRentalCashFlow = cumulativeRentalCashFlow',
           st_sellYear0Baseline = sellYear0Baseline',
           st_yearlyData = st_yearlyData st @ [\<lparr>
             year = yr,
             homeValue = homeValue' i yr,
             loanBalance = balance,
             equity = equity' i yr balance,
             netRentalCashFlow = yearCashFlow i monthlyPI yr,
             cumulativeRentalCashFlow = (if yr = 0 then 0 else cumulativeRentalCashFlow'),
             simpleRentalNetWorth = simpleRentalNetWorth',
             sellingCosts = sellingCosts' i yr,
             capitalGainsTaxOwed = capitalGainsTaxOwed' i yr balance,
             netAfterTaxProceeds = netAfterTaxProceeds' i yr balance,
             sellYear0Total = sellYear0Total',
             betterOption =
               (if simpleRentalNetWorth' > sellYear0Total' then ''rent'' else ''sell''),
             monthlyBreakdown = \<lparr>
               rent = (if yr = 0 then 0 else currentRent i yr),
               expenses =
                 (if yr = 0 then 0
                  else monthlyOwnershipCost i monthlyPI yr + annualMgmtFee i yr / 12)\<rparr>\<rparr>]\<rparr>))"

text \<open>The loop itself: the counter runs from its start up to and including the last year.\<close>

function yearLoop ::
  "inputs \<Rightarrow> real \<Rightarrow> nat \<Rightarrow> nat \<Rightarrow> nat \<Rightarrow> loopState \<Rightarrow> loopState option" where
  "yearLoop i monthlyPI monthsElapsed yearsToHold' yr st =
     (if yr \<le> yearsToHold' then
        (case yearBody i monthlyPI monthsElapsed yr st of
           None \<Rightarrow> None
         | Some st' \<Rightarrow> yearLoop i monthlyPI monthsElapsed yearsToHold' (yr + 1) st')
      else Some st)"
  by pat_completeness auto
termination
  by (relation "measure (\<lambda>(i, monthlyPI, monthsElapsed, yearsToHold', yr, st). yearsToHold' + 1 - yr)")
    auto

declare yearLoop.simps [simp del]

text \<open>
  \<open>calculate\<close> validates the inputs, computes the monthly payment, reads the inputs
  (\<open>parseInt(yearsToHold) || 10\<close>), runs the loop from year 0 with both running
  variables at 0 and an empty array, and hands the array to the chart, the table and the
  summary; the model returns it.
\<close>

definition calculate :: "inputs \<Rightarrow> date \<Rightarrow> yearData list option" where
  "calculate raw now =
     (let i = validateInputs raw in
      case updateMonthlyPaymentDisplay i of
        None \<Rightarrow> None
      | Some monthlyPI \<Rightarrow>
          (let yearsToHold' = orDefault (yearsToHold i) 10;
               monthsElapsed = getMonthsElapsed (loanOriginDate i) now
           in map_option st_yearlyData
                (yearLoop i monthlyPI monthsElapsed yearsToHold' 0
                   \<lparr>st_cumulativeRentalCashFlow = 0, st_sellYear0Baseline = 0,
                    st_yearlyData = []\<rparr>)))"


subsection \<open>Three scenarios\<close>

text \<open>
  Inputs on which the projection is evaluated below. All three have a zero-interest loan
  with a payment of 1000 a month, and \<open>today\<close> is October 2026 (\<open>getMonth()\<close> counts
  from 0). In \<open>scenarioA\<close> the sale pays; in \<open>scenarioB\<close> the loan is larger than
  the home's value; \<open>scenarioC\<close> is \<open>scenarioA\<close> with a loan that started in 2010, so
  that its 180 months have passed.
\<close>

definition scenarioA :: inputs where
  "scenarioA = \<lparr>purchasePrice = 300000, loanOriginDate = \<lparr>fullYear = 2016, month = 9\<rparr>,
     originalLoanAmount = 180000, interestRate = 0, mortgageTerm = 15,
     primaryResidence = False, currentHomeValue = 400000, monthlyHOA = 0, monthlyTaxes = 200,
     monthlyInsurance = 100, monthlyMaintenance = 0, rentalPrice = 2000,
     annualRentIncrease = 0, propertyMgmtFee = 10, rentalTaxRate = 20, homeAppreciation = 0,
     costInflation = 0, sellingFees = 5, capitalGainsTax = 10, investmentReturn = 5,
     yearsToHold = 2\<rparr>"

definition scenarioB :: inputs where
  "scenarioB = \<lparr>purchasePrice = 100000, loanOriginDate = \<lparr>fullYear = 2026, month = 8\<rparr>,
     originalLoanAmount = 360000, interestRate = 0, mortgageTerm = 30,
     primaryResidence = True, currentHomeValue = 200000, monthlyHOA = 0, monthlyTaxes = 0,
     monthlyInsurance = 0, monthlyMaintenance = 0, rentalPrice = 1000,
     annualRentIncrease = 0, propertyMgmtFee = 0, rentalTaxRate = 20, homeAppreciation = 0,
     costInflation = 0, sellingFees = 5, capitalGainsTax = 10, investmentReturn = 5,
     yearsToHold = 1\<rparr>"

definition scenarioC :: inputs where
  "scenarioC = scenarioA\<lparr>loanOriginDate := \<lparr>fullYear = 2010, month = 9\<rparr>, yearsToHold := 1\<rparr>"

definition today :: date where
  "today = \<lparr>fullYear = 2026, month = 9\<rparr>"

section \<open>The amortization functions in exact arithmetic\<close>

lemma factor_gt_one:
  fixes r :: real
  assumes "0 < r" and "0 < n"
  shows "1 < (1 + r) ^ n"
  using assms by (simp add: one_less_power)

lemma calculateMonthlyPayment_Some:
  assumes "0 \<le> r" and "0 < t"
  shows "\<exists>m. calculateMonthlyPayment P r t = Some m"
proof (cases "r = 0")
  case True
  with assms show ?thesis by (simp add: calculateMonthlyPayment_def js_div_def)
next
  case False
  with assms have "0 < r / 100 / 12" by simp
  moreover from assms have "0 < t * 12" by simp
  ultimately have "1 < (1 + r / 100 / 12) ^ (t * 12)" by (rule factor_gt_one)
  with False show ?thesis by (simp add: calculateMonthlyPayment_def js_div_def Let_def)
qed

lemma calculateRemainingBalance_Some:
  assumes "0 \<le> r" and "0 < n"
  shows "\<exists>b. calculateRemainingBalance P r n p = Some b"
proof (cases "r = 0")
  case True
  with assms show ?thesis by (simp add: calculateRemainingBalance_def js_div_def)
next
  case False
  with assms have "1 < (1 + r) ^ n" by (simp add: factor_gt_one)
  with False show ?thesis by (simp add: calculateRemainingBalance_def js_div_def Let_def)
qed

text \<open>
  With a positive rate the balance goes through \<open>Math.max(0, balance)\<close> and is never
  negative, whatever the number of months paid.
\<close>

lemma calculateRemainingBalance_floored_if_rate_pos:
  assumes "0 < r" and "0 < n"
  shows "\<exists>b. calculateRemainingBalance P r n p = Some b \<and> 0 \<le> b"
proof -
  from assms have "1 < (1 + r) ^ n" by (rule factor_gt_one)
  then have "(1 + r) ^ n - 1 \<noteq> 0" by simp
  with assms show ?thesis by (simp add: calculateRemainingBalance_def js_div_def Let_def)
qed

text \<open>
  With a zero rate the balance is not negative as long as no more months are paid than
  the loan has.
\<close>

lemma calculateRemainingBalance_zero_rate_within_term:
  assumes "0 \<le> P" and "0 < n" and "p \<le> n"
  shows "\<exists>b. calculateRemainingBalance P 0 n p = Some b \<and> 0 \<le> b"
proof -
  have "P / real n * real p \<le> P / real n * real n"
    using assms by (intro mult_left_mono) simp_all
  with assms show ?thesis by (simp add: calculateRemainingBalance_def js_div_def)
qed

text \<open>
  With a zero rate and more months paid than the loan has, the balance of a positive
  principal is negative.
\<close>

lemma calculateRemainingBalance_zero_rate_beyond_term:
  assumes "0 < P" and "0 < n" and "n < p"
  shows "\<exists>b. calculateRemainingBalance P 0 n p = Some b \<and> b < 0"
proof -
  from assms have "1 < real p / real n" by simp
  with assms(1) have "P * 1 < P * (real p / real n)" by (intro mult_strict_left_mono)
  then have "P - P / real n * real p < 0" by simp
  with assms show ?thesis by (simp add: calculateRemainingBalance_def js_div_def)
qed

text \<open>
  C1. The claim: for a principal and a monthly rate that are not negative, at least one
  month in total and any number of months paid, also beyond the total and also at rate 0,
  the remaining balance is not negative. The zero-rate branch returns
  \<open>principal - (principal / totalMonths) * monthsPaid\<close> without the floor at 0 of the
  other branch: a loan of 180000 over 180 months at rate 0, 182 months after its first
  payment, has a balance of -2000.
\<close>

theorem calculateRemainingBalance_zero_rate_overpaid:
  "calculateRemainingBalance 180000 0 180 182 = Some (- 2000)"
  by (simp add: calculateRemainingBalance_def js_div_def)

text \<open>
  Over the reals the formula of the monthly payment is sound: for a principal that is
  not negative, an annual rate between 0 and 30 percent and a term of at least one year
  it divides by a positive number and the payment is not negative; at rate 0 it is the
  principal over the number of months; for a principal of 0 it is 0. What the rounding
  of the doubles changes is the subject of the last section.
\<close>

lemma calculateMonthlyPayment_exact_nonneg:
  assumes "0 \<le> P" and "0 \<le> r" and "r \<le> 30" and "1 \<le> t"
  shows "\<exists>m. calculateMonthlyPayment P r t = Some m \<and> 0 \<le> m
           \<and> (r = 0 \<longrightarrow> m = P / (real t * 12)) \<and> (P = 0 \<longrightarrow> m = 0)"
proof (cases "r = 0")
  case True
  with assms show ?thesis by (simp add: calculateMonthlyPayment_def js_div_def)
next
  case False
  define mr where "mr = r / 100 / 12"
  define f where "f = (1 + mr) ^ (t * 12)"
  from False assms have mr: "0 < mr" by (simp add: mr_def)
  from assms have "0 < t * 12" by simp
  with mr have f: "1 < f" unfolding f_def by (rule factor_gt_one)
  have eq: "calculateMonthlyPayment P r t = Some (P * (mr * f) / (f - 1))"
    using False f by (simp add: calculateMonthlyPayment_def js_div_def Let_def mr_def f_def)
  have "0 \<le> P * (mr * f) / (f - 1)"
    using assms(1) mr f by simp
  with eq False show ?thesis by simp
qed

text \<open>
  Over the reals the remaining balance does not increase with the number of months paid,
  and with no month paid it is the principal.
\<close>

lemma calculateRemainingBalance_exact_mono:
  assumes "0 \<le> P" and "0 \<le> r" and "1 \<le> n" and "p \<le> p'"
  shows "\<exists>b b'. calculateRemainingBalance P r n p = Some b
           \<and> calculateRemainingBalance P r n p' = Some b' \<and> b' \<le> b
           \<and> calculateRemainingBalance P r n 0 = Some P"
proof (cases "r = 0")
  case True
  have "P / real n * real p \<le> P / real n * real p'"
    using assms by (intro mult_left_mono) simp_all
  with True assms show ?thesis by (simp add: calculateRemainingBalance_def js_div_def)
next
  case False
  define f where "f = (1 + r) ^ n"
  from False assms have r: "0 < r" by simp
  with assms have f: "1 < f" unfolding f_def by (simp add: factor_gt_one)
  have bal: "calculateRemainingBalance P r n q = Some (max 0 (P * (f - (1 + r) ^ q) / (f - 1)))"
    for q
    using False f by (simp add: calculateRemainingBalance_def js_div_def Let_def f_def)
  have "(1 + r) ^ p \<le> (1 + r) ^ p'"
    using r assms(4) by (intro power_increasing) simp_all
  then have "P * (f - (1 + r) ^ p') \<le> P * (f - (1 + r) ^ p)"
    using assms(1) by (intro mult_left_mono) simp_all
  then have le: "P * (f - (1 + r) ^ p') / (f - 1) \<le> P * (f - (1 + r) ^ p) / (f - 1)"
    using f by (intro divide_right_mono) simp_all
  have zero: "max 0 (P * (f - (1 + r) ^ 0) / (f - 1)) = P"
    using f assms(1) by simp
  show ?thesis using le zero by (simp add: bal del: power_0)
qed


section \<open>The projection loop\<close>

text \<open>
  After validation the rate is not negative and the term in months is positive, so no
  year's balance divides by zero and the projection always returns its array.
\<close>

lemma orDefault_pos: "0 < d \<Longrightarrow> 0 < orDefault x d"
  by (simp add: orDefault_def)

lemma validateInputs_interestRate: "0 \<le> interestRate (validateInputs raw)"
  by (simp add: validateInputs_def clampInput_def)

lemma validateInputs_yearsToHold:
  "1 \<le> N \<Longrightarrow> N \<le> 30 \<Longrightarrow> yearsToHold raw = N \<Longrightarrow>
     orDefault (yearsToHold (validateInputs raw)) 10 = N"
  by (auto simp add: validateInputs_def clampInputInt_def orDefault_def)

lemma yearBody_Some:
  assumes "0 \<le> interestRate i"
  shows "\<exists>st'. yearBody i monthlyPI monthsElapsed yr st = Some st'"
proof -
  have "0 < totalLoanMonths i" by (simp add: totalLoanMonths_def orDefault_pos)
  moreover from assms have "0 \<le> monthlyRate i" by (simp add: monthlyRate_def)
  ultimately obtain b where "loanBalance' i monthsElapsed yr = Some b"
    unfolding loanBalance'_def using calculateRemainingBalance_Some by blast
  then show ?thesis by (simp add: yearBody_def Let_def)
qed

lemma yearLoop_Some:
  "0 \<le> interestRate i \<Longrightarrow> \<exists>st'. yearLoop i monthlyPI monthsElapsed N yr st = Some st'"
proof (induction i monthlyPI monthsElapsed N yr st rule: yearLoop.induct)
  case (1 i monthlyPI monthsElapsed N yr st)
  show ?case
  proof (cases "yr \<le> N")
    case True
    from "1.prems" obtain s where s: "yearBody i monthlyPI monthsElapsed yr st = Some s"
      using yearBody_Some by blast
    from "1.IH" [OF True s "1.prems"] True s show ?thesis
      by (simp add: yearLoop.simps [of _ _ _ _ yr])
  next
    case False
    then show ?thesis by (simp add: yearLoop.simps [of _ _ _ _ yr])
  qed
qed

lemma calculate_Some: "\<exists>ys. calculate raw now = Some ys"
proof -
  let ?i = "validateInputs raw"
  have r: "0 \<le> interestRate ?i" by (rule validateInputs_interestRate)
  have "0 < orDefault (mortgageTerm ?i) 30" by (simp add: orDefault_pos)
  with r obtain m where m: "updateMonthlyPaymentDisplay ?i = Some m"
    unfolding updateMonthlyPaymentDisplay_def Let_def
    using calculateMonthlyPayment_Some by blast
  from r obtain s where "yearLoop ?i m (getMonthsElapsed (loanOriginDate ?i) now)
      (orDefault (yearsToHold ?i) 10) 0
      \<lparr>st_cumulativeRentalCashFlow = 0, st_sellYear0Baseline = 0, st_yearlyData = []\<rparr> = Some s"
    using yearLoop_Some by blast
  with m show ?thesis by (simp add: calculate_def Let_def)
qed

text \<open>The loop rule: an invariant that every pass keeps holds when the loop is left.\<close>

lemma yearLoop_invariant:
  assumes "yearLoop i monthlyPI monthsElapsed N yr st = Some st'"
    and "Inv yr st"
    and "yr \<le> N + 1"
    and "\<And>y s s'. Inv y s \<Longrightarrow> y \<le> N \<Longrightarrow>
           yearBody i monthlyPI monthsElapsed y s = Some s' \<Longrightarrow> Inv (y + 1) s'"
  shows "Inv (N + 1) st'"
  using assms
proof (induction i monthlyPI monthsElapsed N yr st rule: yearLoop.induct)
  case (1 i monthlyPI monthsElapsed N yr st)
  show ?case
  proof (cases "yr \<le> N")
    case True
    with "1.prems"(1) obtain s where s: "yearBody i monthlyPI monthsElapsed yr st = Some s"
      and l: "yearLoop i monthlyPI monthsElapsed N (yr + 1) s = Some st'"
      by (auto simp add: yearLoop.simps [of _ _ _ _ yr] split: option.splits)
    have "Inv (yr + 1) s" using "1.prems"(2) True s by (rule "1.prems"(4))
    moreover from True have "yr + 1 \<le> N + 1" by simp
    ultimately show ?thesis using "1.IH" [OF True s l] "1.prems"(4) by blast
  next
    case False
    with "1.prems" have "st' = st" "yr = N + 1"
      by (auto simp add: yearLoop.simps [of _ _ _ _ yr])
    with "1.prems"(2) show ?thesis by simp
  qed
qed

text \<open>What one pass does to the loop's variables.\<close>

lemma yearBody_push:
  assumes "yearBody i monthlyPI monthsElapsed yr st = Some st'"
  shows "\<exists>r. st_yearlyData st' = st_yearlyData st @ [r] \<and> year r = yr
           \<and> st_cumulativeRentalCashFlow st' = st_cumulativeRentalCashFlow st + netRentalCashFlow r
           \<and> st_sellYear0Baseline st' =
               (if yr = 0 then netAfterTaxProceeds r else st_sellYear0Baseline st)"
  using assms by (auto simp add: yearBody_def Let_def split: option.splits)


lemma calculate_yearLoop:
  assumes "calculate raw now = Some ys"
  shows "\<exists>monthlyPI st'.
           updateMonthlyPaymentDisplay (validateInputs raw) = Some monthlyPI
           \<and> yearLoop (validateInputs raw) monthlyPI
                 (getMonthsElapsed (loanOriginDate (validateInputs raw)) now)
                 (orDefault (yearsToHold (validateInputs raw)) 10) 0
                 \<lparr>st_cumulativeRentalCashFlow = 0, st_sellYear0Baseline = 0,
                  st_yearlyData = []\<rparr> = Some st'
           \<and> ys = st_yearlyData st'"
  using assms by (auto simp add: calculate_def Let_def split: option.splits)

lemma calculate_invariant:
  assumes "calculate raw now = Some ys"
    and "Inv 0 \<lparr>st_cumulativeRentalCashFlow = 0, st_sellYear0Baseline = 0, st_yearlyData = []\<rparr>"
    and "\<And>monthlyPI monthsElapsed y s s'.
           updateMonthlyPaymentDisplay (validateInputs raw) = Some monthlyPI \<Longrightarrow> Inv y s \<Longrightarrow>
           yearBody (validateInputs raw) monthlyPI monthsElapsed y s = Some s' \<Longrightarrow>
           Inv (y + 1) s'"
  shows "\<exists>st'. ys = st_yearlyData st'
           \<and> Inv (orDefault (yearsToHold (validateInputs raw)) 10 + 1) st'"
proof -
  from assms(1) obtain monthlyPI st' where
    m: "updateMonthlyPaymentDisplay (validateInputs raw) = Some monthlyPI"
    and l: "yearLoop (validateInputs raw) monthlyPI
              (getMonthsElapsed (loanOriginDate (validateInputs raw)) now)
              (orDefault (yearsToHold (validateInputs raw)) 10) 0
              \<lparr>st_cumulativeRentalCashFlow = 0, st_sellYear0Baseline = 0,
               st_yearlyData = []\<rparr> = Some st'"
    and ys: "ys = st_yearlyData st'"
    using calculate_yearLoop by blast
  have "Inv (orDefault (yearsToHold (validateInputs raw)) 10 + 1) st'"
    using l assms(2)
  proof (rule yearLoop_invariant)
    show "0 \<le> orDefault (yearsToHold (validateInputs raw)) 10 + 1" by simp
  next
    fix y s s'
    assume "Inv y s"
      and "yearBody (validateInputs raw) monthlyPI
             (getMonthsElapsed (loanOriginDate (validateInputs raw)) now) y s = Some s'"
    with m show "Inv (y + 1) s'" by (rule assms(3))
  qed
  with ys show ?thesis by blast
qed

lemma calculate_pointwise:
  assumes "calculate raw now = Some ys" and "r \<in> set ys"
    and "\<And>monthlyPI monthsElapsed y s s'.
           updateMonthlyPaymentDisplay (validateInputs raw) = Some monthlyPI \<Longrightarrow>
           yearBody (validateInputs raw) monthlyPI monthsElapsed y s = Some s' \<Longrightarrow>
           Q (last (st_yearlyData s'))"
  shows "Q r"
proof -
  define Inv where "Inv = (\<lambda>(y::nat) (s::loopState). \<forall>r \<in> set (st_yearlyData s). Q r)"
  have init: "Inv 0 \<lparr>st_cumulativeRentalCashFlow = 0,
      st_sellYear0Baseline = 0, st_yearlyData = []\<rparr>"
    by (simp add: Inv_def)
  have step: "Inv (y + 1) s'"
    if m: "updateMonthlyPaymentDisplay (validateInputs raw) = Some monthlyPI"
      and inv: "Inv y s"
      and b: "yearBody (validateInputs raw) monthlyPI monthsElapsed y s = Some s'"
    for monthlyPI monthsElapsed y s s'
  proof -
    from b obtain r where r: "st_yearlyData s' = st_yearlyData s @ [r]"
      using yearBody_push by blast
    from m b have "Q (last (st_yearlyData s'))" by (rule assms(3))
    with r inv show ?thesis by (simp add: Inv_def)
  qed
  from assms(1) init step
  have "\<exists>st'. ys = st_yearlyData st'
          \<and> Inv (orDefault (yearsToHold (validateInputs raw)) 10 + 1) st'"
    by (rule calculate_invariant)
  with assms(2) show ?thesis by (auto simp add: Inv_def)
qed


lemma yearBody_record:
  assumes "yearBody i monthlyPI monthsElapsed yr st = Some st'"
  shows "\<exists>balance r.
           loanBalance' i monthsElapsed yr = Some balance
           \<and> st_yearlyData st' = st_yearlyData st @ [r]
           \<and> last (st_yearlyData st') = r
           \<and> year r = yr
           \<and> homeValue r = homeValue' i yr
           \<and> loanBalance r = balance
           \<and> equity r = equity' i yr balance
           \<and> netRentalCashFlow r = yearCashFlow i monthlyPI yr
           \<and> sellingCosts r = sellingCosts' i yr
           \<and> capitalGainsTaxOwed r = capitalGainsTaxOwed' i yr balance
           \<and> netAfterTaxProceeds r = netAfterTaxProceeds' i yr balance
           \<and> rent (monthlyBreakdown r) = (if yr = 0 then 0 else currentRent i yr)
           \<and> expenses (monthlyBreakdown r) =
               (if yr = 0 then 0
                else monthlyOwnershipCost i monthlyPI yr + annualMgmtFee i yr / 12)
           \<and> st_cumulativeRentalCashFlow st' =
               st_cumulativeRentalCashFlow st + netRentalCashFlow r
           \<and> cumulativeRentalCashFlow r =
               (if yr = 0 then 0 else st_cumulativeRentalCashFlow st')
           \<and> simpleRentalNetWorth r =
               (if yr = 0 \<and> 0 < netAfterTaxProceeds r then 0
                else netAfterTaxProceeds r + st_cumulativeRentalCashFlow st')
           \<and> st_sellYear0Baseline st' =
               (if yr = 0 then netAfterTaxProceeds r else st_sellYear0Baseline st)
           \<and> sellYear0Total r =
               (if 0 < st_sellYear0Baseline st'
                then st_sellYear0Baseline st' * (1 + investmentReturn i / 100) ^ yr
                else st_sellYear0Baseline st')"
proof -
  from assms obtain balance where b: "loanBalance' i monthsElapsed yr = Some balance"
    by (auto simp add: yearBody_def split: option.splits)
  from assms have st': "st' = the (yearBody i monthlyPI monthsElapsed yr st)" by simp
  show ?thesis
    unfolding st' yearBody_def b option.case by (simp add: Let_def)
qed


text \<open>The records are pushed in the order of their years, starting at year 0.\<close>

lemma calculate_map_year:
  assumes "calculate raw now = Some ys"
  shows "map year ys = [0..<orDefault (yearsToHold (validateInputs raw)) 10 + 1]"
proof -
  define Inv where "Inv = (\<lambda>(y::nat) (s::loopState). map year (st_yearlyData s) = [0..<y])"
  have init: "Inv 0 \<lparr>st_cumulativeRentalCashFlow = 0,
      st_sellYear0Baseline = 0, st_yearlyData = []\<rparr>"
    by (simp add: Inv_def)
  have step: "Inv (y + 1) s'"
    if "updateMonthlyPaymentDisplay (validateInputs raw) = Some monthlyPI"
      and inv: "Inv y s"
      and b: "yearBody (validateInputs raw) monthlyPI monthsElapsed y s = Some s'"
    for monthlyPI monthsElapsed y s s'
  proof -
    from b obtain r where "st_yearlyData s' = st_yearlyData s @ [r]" and "year r = y"
      using yearBody_push by blast
    with inv show ?thesis by (simp add: Inv_def)
  qed
  from assms init step
  have "\<exists>st'. ys = st_yearlyData st'
          \<and> Inv (orDefault (yearsToHold (validateInputs raw)) 10 + 1) st'"
    by (rule calculate_invariant)
  then show ?thesis by (auto simp add: Inv_def)
qed

lemma calculate_nth_year:
  assumes "calculate raw now = Some ys" and "y < length ys"
  shows "year (ys ! y) = y"
proof -
  from assms(1) have m: "map year ys = [0..<orDefault (yearsToHold (validateInputs raw)) 10 + 1]"
    by (rule calculate_map_year)
  then have "length ys = orDefault (yearsToHold (validateInputs raw)) 10 + 1"
    using length_map [of year ys] by simp
  with assms(2) have "[0..<orDefault (yearsToHold (validateInputs raw)) 10 + 1] ! y = y"
    by (simp del: upt_Suc)
  with m assms(2) show ?thesis using nth_map [of y ys year] by simp
qed

section \<open>The projection on the three scenarios\<close>

lemmas eval_defs = calculate_def validateInputs_def clampInput_def clampInputInt_def
    updateMonthlyPaymentDisplay_def calculateMonthlyPayment_def js_div_def orDefault_def
    getMonthsElapsed_def yearLoop.simps yearBody_def calculateRemainingBalance_def Let_def
    PRIMARY_RESIDENCE_EXEMPTION_CAP_def today_def monthlyRate_def totalLoanMonths_def
    futureMonthsElapsed_def homeValue'_def loanBalance'_def equity'_def rentGrowthExponent_def
    currentRent_def annualRentalIncome_def annualMgmtFee_def inflationFactor_def
    inflatedTaxes_def inflatedInsurance_def inflatedHOA_def inflatedMaintenance_def
    monthlyOwnershipCost_def annualOwnershipCosts_def grossRentalProfit_def rentalTax_def
    netRentalCashFlow'_def yearCashFlow_def sellingCosts'_def netSaleProceeds_def
    capitalGain_def isUnderwater_def capitalGainsTaxOwed'_def netAfterTaxProceeds'_def

lemma validateInputs_scenarioA: "validateInputs scenarioA = scenarioA"
  by (simp add: validateInputs_def clampInput_def clampInputInt_def scenarioA_def)

lemma validateInputs_scenarioB: "validateInputs scenarioB = scenarioB"
  by (simp add: validateInputs_def clampInput_def clampInputInt_def scenarioB_def)

lemma calculate_scenarioA:
  "calculate scenarioA today = Some
    [\<lparr>year = 0, homeValue = 400000, loanBalance = 61000, equity = 339000,
      netRentalCashFlow = 0, cumulativeRentalCashFlow = 0, simpleRentalNetWorth = 0,
      sellingCosts = 20000, capitalGainsTaxOwed = 10000, netAfterTaxProceeds = 309000,
      sellYear0Total = 309000, betterOption = ''sell'',
      monthlyBreakdown = \<lparr>rent = 0, expenses = 0\<rparr>\<rparr>,
     \<lparr>year = 1, homeValue = 400000, loanBalance = 49000, equity = 351000,
      netRentalCashFlow = 4800, cumulativeRentalCashFlow = 4800, simpleRentalNetWorth = 325800,
      sellingCosts = 20000, capitalGainsTaxOwed = 10000, netAfterTaxProceeds = 321000,
      sellYear0Total = 324450, betterOption = ''rent'',
      monthlyBreakdown = \<lparr>rent = 2000, expenses = 1500\<rparr>\<rparr>,
     \<lparr>year = 2, homeValue = 400000, loanBalance = 37000, equity = 363000,
      netRentalCashFlow = 4800, cumulativeRentalCashFlow = 9600, simpleRentalNetWorth = 342600,
      sellingCosts = 20000, capitalGainsTaxOwed = 10000, netAfterTaxProceeds = 333000,
      sellYear0Total = 681345 / 2, betterOption = ''rent'',
      monthlyBreakdown = \<lparr>rent = 2000, expenses = 1500\<rparr>\<rparr>]"
  by (simp add: eval_defs scenarioA_def)

lemma calculate_scenarioB:
  "calculate scenarioB today = Some
    [\<lparr>year = 0, homeValue = 200000, loanBalance = 360000, equity = - 160000,
      netRentalCashFlow = 0, cumulativeRentalCashFlow = 0, simpleRentalNetWorth = - 170000,
      sellingCosts = 10000, capitalGainsTaxOwed = 0, netAfterTaxProceeds = - 170000,
      sellYear0Total = - 170000, betterOption = ''sell'',
      monthlyBreakdown = \<lparr>rent = 0, expenses = 0\<rparr>\<rparr>,
     \<lparr>year = 1, homeValue = 200000, loanBalance = 348000, equity = - 148000,
      netRentalCashFlow = 0, cumulativeRentalCashFlow = 0, simpleRentalNetWorth = - 158000,
      sellingCosts = 10000, capitalGainsTaxOwed = 0, netAfterTaxProceeds = - 158000,
      sellYear0Total = - 170000, betterOption = ''rent'',
      monthlyBreakdown = \<lparr>rent = 1000, expenses = 1000\<rparr>\<rparr>]"
  by (simp add: eval_defs scenarioB_def)

lemma calculate_scenarioC_loanBalance:
  "map_option (map loanBalance) (calculate scenarioC today) = Some [- 11000, - 23000]"
  by (simp add: eval_defs scenarioC_def scenarioA_def)

lemma updateMonthlyPaymentDisplay_scenarioA:
  "updateMonthlyPaymentDisplay (validateInputs scenarioA) = Some 1000"
  by (simp add: validateInputs_scenarioA)
    (simp add: updateMonthlyPaymentDisplay_def calculateMonthlyPayment_def js_div_def
      orDefault_def scenarioA_def)

section \<open>Properties of the year records\<close>

lemma yearBody_betterOption:
  assumes "yearBody i monthlyPI monthsElapsed yr st = Some st'"
  shows "betterOption (last (st_yearlyData st')) =
           (if simpleRentalNetWorth (last (st_yearlyData st'))
                 > sellYear0Total (last (st_yearlyData st'))
            then ''rent'' else ''sell'')"
  using assms by (auto simp add: yearBody_def Let_def split: option.splits)

text \<open>
  What the sale fields of a record hold: the home value of the record's year, the selling
  costs as the fee rate on the home value, the equity, and the net after-tax proceeds.
\<close>

lemma calculate_record_figures:
  assumes "calculate raw now = Some ys" and "r \<in> set ys"
  shows "homeValue r = homeValue' (validateInputs raw) (year r)
         \<and> sellingCosts r = homeValue r * (sellingFees (validateInputs raw) / 100)
         \<and> equity r = homeValue r - loanBalance r
         \<and> netAfterTaxProceeds r =
             homeValue r - loanBalance r - sellingCosts r - capitalGainsTaxOwed r"
proof -
  define Q where "Q = (\<lambda>r::yearData.
         homeValue r = homeValue' (validateInputs raw) (year r)
         \<and> sellingCosts r = homeValue r * (sellingFees (validateInputs raw) / 100)
         \<and> equity r = homeValue r - loanBalance r
         \<and> netAfterTaxProceeds r =
             homeValue r - loanBalance r - sellingCosts r - capitalGainsTaxOwed r)"
  from assms have "Q r"
  proof (rule calculate_pointwise)
    fix monthlyPI monthsElapsed y s s'
    assume "yearBody (validateInputs raw) monthlyPI monthsElapsed y s = Some s'"
    then obtain balance r where "last (st_yearlyData s') = r" and "year r = y"
      and "homeValue r = homeValue' (validateInputs raw) y" and "loanBalance r = balance"
      and "equity r = equity' (validateInputs raw) y balance"
      and "sellingCosts r = sellingCosts' (validateInputs raw) y"
      and "capitalGainsTaxOwed r = capitalGainsTaxOwed' (validateInputs raw) y balance"
      and "netAfterTaxProceeds r = netAfterTaxProceeds' (validateInputs raw) y balance"
      using yearBody_record by blast
    then show "Q (last (st_yearlyData s'))"
      by (simp add: Q_def equity'_def sellingCosts'_def netAfterTaxProceeds'_def
          netSaleProceeds_def)
  qed
  then show ?thesis by (simp add: Q_def)
qed

text \<open>
  C2. The claim: in every year record the better-option tag is "hold" when the combined
  hold net worth is strictly greater than the sell trajectory value, and "sell"
  otherwise. The code names the first option "rent" (the table styles its rows by
  \<open>d.betterOption === "rent"\<close>), so the tag is never "hold": in \<open>scenarioA\<close> the year-1
  record has a net worth of 325800 above a sell value of 324450, and its tag is "rent".
  As amended: the tag is "rent" when the combined hold net worth is strictly greater than
  the sell trajectory value, and "sell" otherwise, so also on a tie.
\<close>

theorem calculate_betterOption:
  assumes "calculate raw now = Some ys" and "r \<in> set ys"
  shows "betterOption r =
           (if simpleRentalNetWorth r > sellYear0Total r then ''rent'' else ''sell'')"
  using assms
proof (rule calculate_pointwise)
  fix monthlyPI monthsElapsed y s s'
  assume "yearBody (validateInputs raw) monthlyPI monthsElapsed y s = Some s'"
  then show "betterOption (last (st_yearlyData s')) =
           (if simpleRentalNetWorth (last (st_yearlyData s'))
                 > sellYear0Total (last (st_yearlyData s'))
            then ''rent'' else ''sell'')"
    by (rule yearBody_betterOption)
qed

theorem calculate_betterOption_witness:
  "betterOption (the (calculate scenarioA today) ! 0) = ''sell''
   \<and> betterOption (the (calculate scenarioA today) ! 1) = ''rent''
   \<and> betterOption (the (calculate scenarioB today) ! 0) = ''sell''"
  using calculate_betterOption [OF calculate_scenarioA,
      of "the (calculate scenarioA today) ! 0"]
    calculate_betterOption [OF calculate_scenarioA,
      of "the (calculate scenarioA today) ! 1"]
    calculate_betterOption [OF calculate_scenarioB,
      of "the (calculate scenarioB today) ! 0"]
  by (simp add: calculate_scenarioA calculate_scenarioB)

theorem calculate_betterOption_hold_counterexample:
  "sellYear0Total (the (calculate scenarioA today) ! 1)
     < simpleRentalNetWorth (the (calculate scenarioA today) ! 1)
   \<and> betterOption (the (calculate scenarioA today) ! 1) \<noteq> ''hold''"
  by (simp add: calculate_scenarioA)


text \<open>
  C9. With the years to hold set to a whole number \<open>N\<close> between 1 and 30, the projection
  returns exactly \<open>N + 1\<close> year records, and their year fields are 0, 1, ..., \<open>N\<close> in
  this order.
\<close>

theorem calculate_year_records:
  assumes "yearsToHold raw = N" and "1 \<le> N" and "N \<le> 30"
  shows "\<exists>ys. calculate raw now = Some ys \<and> length ys = N + 1 \<and> map year ys = [0..<N + 1]"
proof -
  obtain ys where ys: "calculate raw now = Some ys" using calculate_Some by blast
  from assms have "orDefault (yearsToHold (validateInputs raw)) 10 = N"
    by (simp add: validateInputs_yearsToHold)
  with ys have m: "map year ys = [0..<N + 1]" using calculate_map_year by fastforce
  then have "length ys = N + 1" using length_map [of year ys] by simp
  with ys m show ?thesis by blast
qed

theorem calculate_year_records_witness:
  "yearsToHold scenarioA = 2
   \<and> length (the (calculate scenarioA today)) = 3
   \<and> map year (the (calculate scenarioA today)) = [0, 1, 2]"
  using calculate_year_records [of scenarioA 2 today]
  by (simp add: calculate_scenarioA) (simp add: scenarioA_def)

text \<open>
  C3. In every year record the capital-gains tax owed follows the four branches, with
  the capital gain being the home value less the purchase price and the net sale proceeds
  being the home value less the loan balance less the selling costs: no tax when the gain
  is not positive; else no tax when the net sale proceeds are negative; else, for a
  primary residence up to year 3, the tax rate on the gain above 500000; else the tax
  rate on the whole gain.
\<close>

theorem calculate_capitalGainsTaxOwed:
  assumes "calculate raw now = Some ys" and "r \<in> set ys"
  shows "capitalGainsTaxOwed r =
           (let capitalGain = homeValue r - purchasePrice (validateInputs raw);
                netSaleProceeds = homeValue r - loanBalance r - sellingCosts r
            in if capitalGain \<le> 0 then 0
               else if netSaleProceeds < 0 then 0
               else if primaryResidence (validateInputs raw) \<and> year r \<le> 3
                 then max 0 (capitalGain - 500000) * (capitalGainsTax (validateInputs raw) / 100)
               else capitalGain * (capitalGainsTax (validateInputs raw) / 100))"
proof -
  define Q where "Q = (\<lambda>r::yearData. capitalGainsTaxOwed r =
           (let capitalGain = homeValue r - purchasePrice (validateInputs raw);
                netSaleProceeds = homeValue r - loanBalance r - sellingCosts r
            in if capitalGain \<le> 0 then 0
               else if netSaleProceeds < 0 then 0
               else if primaryResidence (validateInputs raw) \<and> year r \<le> 3
                 then max 0 (capitalGain - 500000) * (capitalGainsTax (validateInputs raw) / 100)
               else capitalGain * (capitalGainsTax (validateInputs raw) / 100)))"
  from assms have "Q r"
  proof (rule calculate_pointwise)
    fix monthlyPI monthsElapsed y s s'
    assume "yearBody (validateInputs raw) monthlyPI monthsElapsed y s = Some s'"
    then obtain balance r where "last (st_yearlyData s') = r" and "year r = y"
      and "homeValue r = homeValue' (validateInputs raw) y" and "loanBalance r = balance"
      and "sellingCosts r = sellingCosts' (validateInputs raw) y"
      and "capitalGainsTaxOwed r = capitalGainsTaxOwed' (validateInputs raw) y balance"
      using yearBody_record by blast
    then show "Q (last (st_yearlyData s'))"
      by (simp add: Q_def capitalGainsTaxOwed'_def capitalGain_def isUnderwater_def
          netSaleProceeds_def PRIMARY_RESIDENCE_EXEMPTION_CAP_def Let_def)
  qed
  then show ?thesis by (simp add: Q_def)
qed

theorem calculate_capitalGainsTaxOwed_witness:
  "capitalGainsTaxOwed (the (calculate scenarioA today) ! 1) = 10000
   \<and> capitalGainsTaxOwed (the (calculate scenarioB today) ! 0) = 0"
  using calculate_capitalGainsTaxOwed [OF calculate_scenarioA,
      of "the (calculate scenarioA today) ! 1"]
    calculate_capitalGainsTaxOwed [OF calculate_scenarioB,
      of "the (calculate scenarioB today) ! 0"]
  by (simp add: calculate_scenarioA calculate_scenarioB)

text \<open>
  C4. In the record of a year from 1 on, the combined hold net worth is that year's net
  after-tax proceeds plus the cumulative rental cash flow through that year. In the
  record of year 0 it is 0 when the net after-tax proceeds are strictly positive, and it
  is the net after-tax proceeds themselves when they are negative.
\<close>

theorem calculate_simpleRentalNetWorth:
  assumes "calculate raw now = Some ys" and "r \<in> set ys"
  shows "(1 \<le> year r \<longrightarrow>
            simpleRentalNetWorth r = netAfterTaxProceeds r + cumulativeRentalCashFlow r)
         \<and> (year r = 0 \<and> 0 < netAfterTaxProceeds r \<longrightarrow> simpleRentalNetWorth r = 0)
         \<and> (year r = 0 \<and> netAfterTaxProceeds r < 0 \<longrightarrow>
            simpleRentalNetWorth r = netAfterTaxProceeds r)"
proof -
  define Q where "Q = (\<lambda>r::yearData.
         (1 \<le> year r \<longrightarrow>
            simpleRentalNetWorth r = netAfterTaxProceeds r + cumulativeRentalCashFlow r)
         \<and> (year r = 0 \<and> 0 < netAfterTaxProceeds r \<longrightarrow> simpleRentalNetWorth r = 0)
         \<and> (year r = 0 \<and> netAfterTaxProceeds r < 0 \<longrightarrow>
            simpleRentalNetWorth r = netAfterTaxProceeds r))"
  define Inv where "Inv = (\<lambda>(y::nat) (s::loopState).
         (y = 0 \<longrightarrow> st_cumulativeRentalCashFlow s = 0)
         \<and> (\<forall>r \<in> set (st_yearlyData s). Q r))"
  have init: "Inv 0 \<lparr>st_cumulativeRentalCashFlow = 0,
      st_sellYear0Baseline = 0, st_yearlyData = []\<rparr>"
    by (simp add: Inv_def)
  have step: "Inv (y + 1) s'"
    if "updateMonthlyPaymentDisplay (validateInputs raw) = Some monthlyPI"
      and inv: "Inv y s"
      and b: "yearBody (validateInputs raw) monthlyPI monthsElapsed y s = Some s'"
    for monthlyPI monthsElapsed y s s'
  proof -
    from b obtain balance r where d: "st_yearlyData s' = st_yearlyData s @ [r]"
      and y: "year r = y"
      and n: "netRentalCashFlow r = yearCashFlow (validateInputs raw) monthlyPI y"
      and c: "st_cumulativeRentalCashFlow s' = st_cumulativeRentalCashFlow s + netRentalCashFlow r"
      and f: "cumulativeRentalCashFlow r = (if y = 0 then 0 else st_cumulativeRentalCashFlow s')"
      and w: "simpleRentalNetWorth r =
               (if y = 0 \<and> 0 < netAfterTaxProceeds r then 0
                else netAfterTaxProceeds r + st_cumulativeRentalCashFlow s')"
      using yearBody_record by blast
    have "Q r"
    proof (cases "y = 0")
      case True
      with inv have "st_cumulativeRentalCashFlow s = 0" by (simp add: Inv_def)
      with True n c have "st_cumulativeRentalCashFlow s' = 0" by (simp add: yearCashFlow_def)
      with True y w show ?thesis by (simp add: Q_def)
    next
      case False
      with y f w show ?thesis by (simp add: Q_def)
    qed
    with inv d show ?thesis by (simp add: Inv_def)
  qed
  from assms(1) init step
  have "\<exists>st'. ys = st_yearlyData st'
          \<and> Inv (orDefault (yearsToHold (validateInputs raw)) 10 + 1) st'"
    by (rule calculate_invariant)
  with assms(2) have "Q r" by (auto simp add: Inv_def)
  then show ?thesis by (simp add: Q_def)
qed

theorem calculate_simpleRentalNetWorth_witness:
  "simpleRentalNetWorth (the (calculate scenarioA today) ! 0) = 0
   \<and> simpleRentalNetWorth (the (calculate scenarioA today) ! 2) = 333000 + 9600
   \<and> simpleRentalNetWorth (the (calculate scenarioB today) ! 0) = - 170000"
  using calculate_simpleRentalNetWorth [OF calculate_scenarioA,
      of "the (calculate scenarioA today) ! 0"]
    calculate_simpleRentalNetWorth [OF calculate_scenarioA,
      of "the (calculate scenarioA today) ! 2"]
    calculate_simpleRentalNetWorth [OF calculate_scenarioB,
      of "the (calculate scenarioB today) ! 0"]
  by (simp add: calculate_scenarioA calculate_scenarioB)

text \<open>
  C5. The first record is that of year 0, and its net after-tax proceeds are the
  baseline. In every record the sell trajectory value is the baseline times
  \<open>(1 + investmentReturn / 100) ^ year\<close> when the baseline is strictly positive, and the
  baseline itself otherwise. In particular, with a negative baseline all records carry
  the same sell trajectory value.
\<close>

theorem calculate_sellYear0Total:
  assumes "calculate raw now = Some ys" and "r \<in> set ys" and "r' \<in> set ys"
  shows "year (hd ys) = 0
         \<and> sellYear0Total r =
             (if 0 < netAfterTaxProceeds (hd ys)
              then netAfterTaxProceeds (hd ys)
                     * (1 + investmentReturn (validateInputs raw) / 100) ^ year r
              else netAfterTaxProceeds (hd ys))
         \<and> (netAfterTaxProceeds (hd ys) < 0 \<longrightarrow> sellYear0Total r = sellYear0Total r')"
proof -
  define Q where "Q = (\<lambda>(b::real) (r::yearData). sellYear0Total r =
             (if 0 < b then b * (1 + investmentReturn (validateInputs raw) / 100) ^ year r
              else b))"
  define Inv where "Inv = (\<lambda>(y::nat) (s::loopState).
         (y = 0 \<longrightarrow> st_yearlyData s = [])
         \<and> (0 < y \<longrightarrow> st_yearlyData s \<noteq> [] \<and> year (hd (st_yearlyData s)) = 0
               \<and> st_sellYear0Baseline s = netAfterTaxProceeds (hd (st_yearlyData s)))
         \<and> (\<forall>r \<in> set (st_yearlyData s). Q (netAfterTaxProceeds (hd (st_yearlyData s))) r))"
  have init: "Inv 0 \<lparr>st_cumulativeRentalCashFlow = 0,
      st_sellYear0Baseline = 0, st_yearlyData = []\<rparr>"
    by (simp add: Inv_def)
  have step: "Inv (y + 1) s'"
    if "updateMonthlyPaymentDisplay (validateInputs raw) = Some monthlyPI"
      and inv: "Inv y s"
      and b: "yearBody (validateInputs raw) monthlyPI monthsElapsed y s = Some s'"
    for monthlyPI monthsElapsed y s s'
  proof -
    from b obtain balance r where d: "st_yearlyData s' = st_yearlyData s @ [r]"
      and y: "year r = y"
      and base: "st_sellYear0Baseline s' =
               (if y = 0 then netAfterTaxProceeds r else st_sellYear0Baseline s)"
      and t: "sellYear0Total r =
               (if 0 < st_sellYear0Baseline s'
                then st_sellYear0Baseline s' * (1 + investmentReturn (validateInputs raw) / 100) ^ y
                else st_sellYear0Baseline s')"
      using yearBody_record by blast
    show ?thesis
    proof (cases "y = 0")
      case True
      with inv have "st_yearlyData s = []" by (simp add: Inv_def)
      with d True y base t show ?thesis by (simp add: Inv_def Q_def)
    next
      case False
      with inv have ne: "st_yearlyData s \<noteq> []"
        and "st_sellYear0Baseline s = netAfterTaxProceeds (hd (st_yearlyData s))"
        by (simp_all add: Inv_def)
      with False base have b': "st_sellYear0Baseline s' = netAfterTaxProceeds (hd (st_yearlyData s))"
        by simp
      with t y have "Q (netAfterTaxProceeds (hd (st_yearlyData s))) r" by (simp add: Q_def)
      with inv d ne False b' show ?thesis by (simp add: Inv_def)
    qed
  qed
  from assms(1) init step
  have "\<exists>st'. ys = st_yearlyData st'
          \<and> Inv (orDefault (yearsToHold (validateInputs raw)) 10 + 1) st'"
    by (rule calculate_invariant)
  then have h: "year (hd ys) = 0" and q: "\<forall>r \<in> set ys. Q (netAfterTaxProceeds (hd ys)) r"
    by (auto simp add: Inv_def)
  from q assms(2,3) have "Q (netAfterTaxProceeds (hd ys)) r" and "Q (netAfterTaxProceeds (hd ys)) r'"
    by simp_all
  with h show ?thesis by (simp add: Q_def)
qed

theorem calculate_sellYear0Total_witness:
  "sellYear0Total (the (calculate scenarioA today) ! 1) = 309000 * (1 + 5 / 100) ^ 1
   \<and> sellYear0Total (the (calculate scenarioB today) ! 0) = - 170000
   \<and> sellYear0Total (the (calculate scenarioB today) ! 1) = - 170000"
  using calculate_sellYear0Total [OF calculate_scenarioA,
      of "the (calculate scenarioA today) ! 1" "the (calculate scenarioA today) ! 0"]
    calculate_sellYear0Total [OF calculate_scenarioB,
      of "the (calculate scenarioB today) ! 1" "the (calculate scenarioB today) ! 0"]
  by (simp add: calculate_scenarioA calculate_scenarioB)

text \<open>
  The sum over the first records of a list, read by index; the record at index 0
  contributes nothing when its value is 0.
\<close>

lemma sum_list_take_nth:
  fixes f :: "'a \<Rightarrow> real"
  assumes "n \<le> length xs"
  shows "sum_list (map f (take n xs)) = (\<Sum>k = 0..<n. f (xs ! k))"
proof -
  have "sum_list (map f (take n xs)) = (\<Sum>k = 0..<length (map f (take n xs)). map f (take n xs) ! k)"
    by (rule sum_list_sum_nth)
  also have "\<dots> = (\<Sum>k = 0..<n. f (xs ! k))"
    using assms by (intro sum.cong) simp_all
  finally show ?thesis .
qed

lemma sum_list_take_Suc_from_one:
  fixes f :: "'a \<Rightarrow> real"
  assumes "y < length xs" and "f (xs ! 0) = 0"
  shows "sum_list (map f (take (Suc y) xs)) = (\<Sum>k = 1..y. f (xs ! k))"
proof -
  from assms(1) have "sum_list (map f (take (Suc y) xs)) = (\<Sum>k = 0..<Suc y. f (xs ! k))"
    by (intro sum_list_take_nth) simp
  also have "\<dots> = f (xs ! 0) + (\<Sum>k = Suc 0..<Suc y. f (xs ! k))"
    by (rule sum.atLeast_Suc_lessThan) simp
  also have "\<dots> = (\<Sum>k = 1..y. f (xs ! k))"
    using assms(2) by (simp add: atLeastLessThanSuc_atLeastAtMost)
  finally show ?thesis .
qed

lemma calculate_netRentalCashFlow:
  assumes "calculate raw now = Some ys" and "r \<in> set ys"
    and "updateMonthlyPaymentDisplay (validateInputs raw) = Some monthlyPI"
  shows "netRentalCashFlow r = yearCashFlow (validateInputs raw) monthlyPI (year r)"
proof -
  define Q where "Q = (\<lambda>r::yearData.
    netRentalCashFlow r = yearCashFlow (validateInputs raw) monthlyPI (year r))"
  from assms(1,2) have "Q r"
  proof (rule calculate_pointwise)
    fix m monthsElapsed y s s'
    assume "updateMonthlyPaymentDisplay (validateInputs raw) = Some m"
    with assms(3) have m: "m = monthlyPI" by simp
    assume "yearBody (validateInputs raw) m monthsElapsed y s = Some s'"
    then obtain balance r where "last (st_yearlyData s') = r" and "year r = y"
      and "netRentalCashFlow r = yearCashFlow (validateInputs raw) m y"
      using yearBody_record by blast
    with m show "Q (last (st_yearlyData s'))" by (simp add: Q_def)
  qed
  then show ?thesis by (simp add: Q_def)
qed

text \<open>
  C6. The record of year 0 reports a net rental cash flow of 0 and a cumulative rental
  cash flow of 0, whatever the inputs. The record at index \<open>y\<close> is that of year \<open>y\<close>,
  and its cumulative rental cash flow is the sum of the net rental cash flows of the
  years 1 to \<open>y\<close>: of those the records report, which are those the year's figures give.
\<close>

theorem calculate_cumulativeRentalCashFlow:
  assumes "calculate raw now = Some ys" and "y < length ys"
    and "updateMonthlyPaymentDisplay (validateInputs raw) = Some monthlyPI"
  shows "year (ys ! y) = y
         \<and> netRentalCashFlow (ys ! 0) = 0
         \<and> cumulativeRentalCashFlow (ys ! 0) = 0
         \<and> cumulativeRentalCashFlow (ys ! y) = (\<Sum>k = 1..y. netRentalCashFlow (ys ! k))
         \<and> cumulativeRentalCashFlow (ys ! y) =
             (\<Sum>k = 1..y. netRentalCashFlow' (validateInputs raw) monthlyPI k)"
proof -
  define Inv where "Inv = (\<lambda>(y::nat) (s::loopState).
         length (st_yearlyData s) = y
         \<and> st_cumulativeRentalCashFlow s = sum_list (map netRentalCashFlow (st_yearlyData s))
         \<and> (0 < y \<longrightarrow> netRentalCashFlow (st_yearlyData s ! 0) = 0)
         \<and> (\<forall>j<y. cumulativeRentalCashFlow (st_yearlyData s ! j) =
               (if j = 0 then 0
                else sum_list (map netRentalCashFlow (take (Suc j) (st_yearlyData s))))))"
  have init: "Inv 0 \<lparr>st_cumulativeRentalCashFlow = 0,
      st_sellYear0Baseline = 0, st_yearlyData = []\<rparr>"
    by (simp add: Inv_def)
  have step: "Inv (y + 1) s'"
    if "updateMonthlyPaymentDisplay (validateInputs raw) = Some monthlyPI"
      and inv: "Inv y s"
      and b: "yearBody (validateInputs raw) monthlyPI monthsElapsed y s = Some s'"
    for monthlyPI monthsElapsed y s s'
  proof -
    from b obtain balance r where d: "st_yearlyData s' = st_yearlyData s @ [r]"
      and n: "netRentalCashFlow r = yearCashFlow (validateInputs raw) monthlyPI y"
      and c: "st_cumulativeRentalCashFlow s' = st_cumulativeRentalCashFlow s + netRentalCashFlow r"
      and f: "cumulativeRentalCashFlow r = (if y = 0 then 0 else st_cumulativeRentalCashFlow s')"
      using yearBody_record by blast
    from inv have len: "length (st_yearlyData s) = y"
      and tot: "st_cumulativeRentalCashFlow s = sum_list (map netRentalCashFlow (st_yearlyData s))"
      and zero: "0 < y \<Longrightarrow> netRentalCashFlow (st_yearlyData s ! 0) = 0"
      and old: "\<And>j. j < y \<Longrightarrow> cumulativeRentalCashFlow (st_yearlyData s ! j) =
               (if j = 0 then 0
                else sum_list (map netRentalCashFlow (take (Suc j) (st_yearlyData s))))"
      by (simp_all add: Inv_def)
    have 1: "length (st_yearlyData s') = y + 1" using d len by simp
    have 2: "st_cumulativeRentalCashFlow s' = sum_list (map netRentalCashFlow (st_yearlyData s'))"
      using d c tot by simp
    have 3: "netRentalCashFlow (st_yearlyData s' ! 0) = 0"
    proof (cases "y = 0")
      case True
      with len d n show ?thesis by (simp add: yearCashFlow_def)
    next
      case False
      with len d zero show ?thesis by (simp add: nth_append)
    qed
    have 4: "cumulativeRentalCashFlow (st_yearlyData s' ! j) =
               (if j = 0 then 0
                else sum_list (map netRentalCashFlow (take (Suc j) (st_yearlyData s'))))"
      if "j < y + 1" for j
    proof (cases "j < y")
      case True
      with len d old [OF True] show ?thesis by (simp add: nth_append)
    next
      case False
      with that have j: "j = y" by simp
      have "st_yearlyData s' ! y = r" using d len by (simp add: nth_append)
      moreover have "take (Suc y) (st_yearlyData s') = st_yearlyData s'" using 1 by simp
      ultimately show ?thesis using j f 2 by simp
    qed
    from 1 2 3 4 show ?thesis by (simp add: Inv_def)
  qed
  from assms(1) init step
  have "\<exists>st'. ys = st_yearlyData st'
          \<and> Inv (orDefault (yearsToHold (validateInputs raw)) 10 + 1) st'"
    by (rule calculate_invariant)
  then have len: "length ys = orDefault (yearsToHold (validateInputs raw)) 10 + 1"
    and zero: "netRentalCashFlow (ys ! 0) = 0"
    and cum: "\<And>j. j < length ys \<Longrightarrow> cumulativeRentalCashFlow (ys ! j) =
               (if j = 0 then 0 else sum_list (map netRentalCashFlow (take (Suc j) ys)))"
    by (auto simp add: Inv_def)
  from len have "0 < length ys" by simp
  then have c0: "cumulativeRentalCashFlow (ys ! 0) = 0" using cum [of 0] by simp
  have "cumulativeRentalCashFlow (ys ! y) = (\<Sum>k = 1..y. netRentalCashFlow (ys ! k))"
  proof (cases "y = 0")
    case True
    with c0 show ?thesis by simp
  next
    case False
    from assms(2) zero
    have "sum_list (map netRentalCashFlow (take (Suc y) ys)) =
            (\<Sum>k = 1..y. netRentalCashFlow (ys ! k))"
      by (rule sum_list_take_Suc_from_one)
    with False cum [OF assms(2)] show ?thesis by simp
  qed
  moreover have "(\<Sum>k = 1..y. netRentalCashFlow (ys ! k)) =
      (\<Sum>k = 1..y. netRentalCashFlow' (validateInputs raw) monthlyPI k)"
  proof (rule sum.cong)
    fix k assume "k \<in> {1..y}"
    with assms(2) have k: "k < length ys" and pos: "k \<noteq> 0" by simp_all
    then have "ys ! k \<in> set ys" by simp
    with assms(1) have "netRentalCashFlow (ys ! k) =
        yearCashFlow (validateInputs raw) monthlyPI (year (ys ! k))"
      using assms(3) by (rule calculate_netRentalCashFlow)
    moreover from assms(1) k have "year (ys ! k) = k" by (rule calculate_nth_year)
    ultimately show "netRentalCashFlow (ys ! k) =
        netRentalCashFlow' (validateInputs raw) monthlyPI k"
      using pos by (simp add: yearCashFlow_def)
  qed simp
  ultimately show ?thesis
    using zero c0 calculate_nth_year [OF assms(1,2)] by simp
qed

theorem calculate_cumulativeRentalCashFlow_witness:
  "netRentalCashFlow (the (calculate scenarioA today) ! 0) = 0
   \<and> cumulativeRentalCashFlow (the (calculate scenarioA today) ! 0) = 0
   \<and> cumulativeRentalCashFlow (the (calculate scenarioA today) ! 2) = 4800 + 4800"
  using calculate_cumulativeRentalCashFlow
      [OF calculate_scenarioA _ updateMonthlyPaymentDisplay_scenarioA, of 2]
  by (simp add: calculate_scenarioA)

text \<open>
  C10. The monthly breakdown of the year-0 record reports a rent of 0 and expenses of 0.
  That of a year from 1 on reports the year's monthly rent, and as expenses the year's
  monthly ownership cost plus a twelfth of the year's management fee.
\<close>

theorem calculate_monthlyBreakdown:
  assumes "calculate raw now = Some ys" and "r \<in> set ys"
    and "updateMonthlyPaymentDisplay (validateInputs raw) = Some monthlyPI"
  shows "(year r = 0 \<longrightarrow>
            rent (monthlyBreakdown r) = 0 \<and> expenses (monthlyBreakdown r) = 0)
         \<and> (1 \<le> year r \<longrightarrow>
            rent (monthlyBreakdown r) = currentRent (validateInputs raw) (year r)
            \<and> expenses (monthlyBreakdown r) =
                monthlyOwnershipCost (validateInputs raw) monthlyPI (year r)
                  + annualMgmtFee (validateInputs raw) (year r) / 12)"
proof -
  define Q where "Q = (\<lambda>r::yearData. (year r = 0 \<longrightarrow>
            rent (monthlyBreakdown r) = 0 \<and> expenses (monthlyBreakdown r) = 0)
         \<and> (1 \<le> year r \<longrightarrow>
            rent (monthlyBreakdown r) = currentRent (validateInputs raw) (year r)
            \<and> expenses (monthlyBreakdown r) =
                monthlyOwnershipCost (validateInputs raw) monthlyPI (year r)
                  + annualMgmtFee (validateInputs raw) (year r) / 12))"
  from assms(1,2) have "Q r"
  proof (rule calculate_pointwise)
    fix m monthsElapsed y s s'
    assume "updateMonthlyPaymentDisplay (validateInputs raw) = Some m"
    with assms(3) have m: "m = monthlyPI" by simp
    assume "yearBody (validateInputs raw) m monthsElapsed y s = Some s'"
    then obtain balance r where "last (st_yearlyData s') = r" and "year r = y"
      and "rent (monthlyBreakdown r) = (if y = 0 then 0 else currentRent (validateInputs raw) y)"
      and "expenses (monthlyBreakdown r) =
               (if y = 0 then 0
                else monthlyOwnershipCost (validateInputs raw) m y
                  + annualMgmtFee (validateInputs raw) y / 12)"
      using yearBody_record by blast
    with m show "Q (last (st_yearlyData s'))"
      by (simp add: Q_def)
  qed
  then show ?thesis by (simp add: Q_def)
qed


theorem calculate_monthlyBreakdown_witness:
  "rent (monthlyBreakdown (the (calculate scenarioA today) ! 0)) = 0
   \<and> expenses (monthlyBreakdown (the (calculate scenarioA today) ! 0)) = 0
   \<and> rent (monthlyBreakdown (the (calculate scenarioA today) ! 2)) = 2000
   \<and> expenses (monthlyBreakdown (the (calculate scenarioA today) ! 2)) = 1500"
  using calculate_monthlyBreakdown [OF calculate_scenarioA _ updateMonthlyPaymentDisplay_scenarioA,
      of "the (calculate scenarioA today) ! 0"]
    calculate_monthlyBreakdown [OF calculate_scenarioA _ updateMonthlyPaymentDisplay_scenarioA,
      of "the (calculate scenarioA today) ! 2"]
  by (simp add: calculate_scenarioA)


section \<open>Double-precision arithmetic\<close>

subsection \<open>Rounding to the nearest integer\<close>

lemma rne_of_int: "rne (of_int n) = n"
  by (simp add: rne_def)

lemma rne_cases: "rne a = \<lfloor>a\<rfloor> \<or> rne a = \<lfloor>a\<rfloor> + 1"
  by (simp add: rne_def Let_def)

lemma rne_mono:
  assumes "a \<le> b"
  shows "rne a \<le> rne b"
proof (cases "\<lfloor>a\<rfloor> = \<lfloor>b\<rfloor>")
  case True
  with assms show ?thesis by (auto simp add: rne_def Let_def)
next
  case False
  with assms have "\<lfloor>a\<rfloor> < \<lfloor>b\<rfloor>" using floor_mono [of a b] by simp
  moreover have "rne a \<le> \<lfloor>a\<rfloor> + 1" using rne_cases [of a] by auto
  moreover have "\<lfloor>b\<rfloor> \<le> rne b" using rne_cases [of b] by auto
  ultimately show ?thesis by simp
qed


lemma rne_minus: "rne (- a) = - rne a"
proof (cases "a = of_int \<lfloor>a\<rfloor>")
  case True
  then obtain n where "a = of_int n" ..
  then have "rne a = n" and "rne (- a) = - n"
    using rne_of_int [of n] rne_of_int [of "- n"] by simp_all
  then show ?thesis by simp
next
  case False
  define f where "f = \<lfloor>a\<rfloor>"
  define d where "d = a - of_int f"
  from False have d0: "0 < d" using of_int_floor_le [of a] unfolding d_def f_def by linarith
  have d1: "d < 1" unfolding d_def f_def by linarith
  have a: "a = of_int f + d" by (simp add: d_def)
  have "\<lfloor>- a\<rfloor> = - f - 1"
    by (rule floor_unique) (use d0 d1 a in simp_all)
  then have m: "rne (- a) = (if 1 - d < 1 / 2 then - f - 1 else if 1 / 2 < 1 - d then - f
      else if even (- f - 1) then - f - 1 else - f)"
    by (simp add: rne_def Let_def a)
  have p: "rne a = (if d < 1 / 2 then f else if 1 / 2 < d then f + 1
      else if even f then f else f + 1)"
    by (simp add: rne_def Let_def f_def d_def)
  consider "d < 1 / 2" | "1 / 2 < d" | "d = 1 / 2" by linarith
  then show ?thesis
  proof cases
    case 1
    then show ?thesis by (simp add: m p)
  next
    case 2
    then show ?thesis by (simp add: m p)
  next
    case 3
    then show ?thesis by (simp add: m p)
  qed
qed

lemma rne_nonneg: "0 \<le> a \<Longrightarrow> 0 \<le> rne a"
  using rne_mono [of 0 a] rne_of_int [of 0] by simp


subsection \<open>The binade of a real\<close>

lemma pow2_pos: "0 < (2::real) powi k"
  by (simp add: zero_less_power_int)

lemma pow2_mono: "k \<le> m \<Longrightarrow> (2::real) powi k \<le> 2 powi m"
  by (intro power_int_increasing) simp_all

lemma pow2_less_D:
  assumes "(2::real) powi k < 2 powi m"
  shows "k < m"
proof (rule ccontr)
  assume "\<not> k < m"
  then have "(2::real) powi m \<le> 2 powi k" by (intro pow2_mono) simp
  with assms show False by simp
qed

lemma pow2_powr: "(2::real) powr (of_int k) = 2 powi k"
  by (rule powr_real_of_int') simp_all

lemma binade_set:
  "set (filter (\<lambda>k. 2 powi k \<le> \<bar>x\<bar>) [- 1022..1023]) =
     {k. - 1022 \<le> k \<and> k \<le> 1023 \<and> (2::real) powi k \<le> \<bar>x\<bar>}"
  unfolding set_filter set_upto by auto

lemma binade_eqI:
  assumes "2 powi e \<le> \<bar>x\<bar>" and "\<bar>x\<bar> < 2 powi (e + 1)" and "- 1022 \<le> e" and "e \<le> 1023"
  shows "binade x = e"
proof -
  have "(2::real) powi (- 1022) \<le> 2 powi e" using assms(3) by (rule pow2_mono)
  with assms(1) have big: "\<not> \<bar>x\<bar> < 2 powi (- 1022)" by linarith
  have "Max {k. - 1022 \<le> k \<and> k \<le> 1023 \<and> (2::real) powi k \<le> \<bar>x\<bar>} = e"
  proof (rule Max_eqI)
    have "{k. - 1022 \<le> k \<and> k \<le> 1023 \<and> (2::real) powi k \<le> \<bar>x\<bar>} \<subseteq> {- 1022..1023}" by auto
    then show "finite {k. - 1022 \<le> k \<and> k \<le> 1023 \<and> (2::real) powi k \<le> \<bar>x\<bar>}"
      by (rule finite_subset) simp
  next
    fix k assume "k \<in> {k. - 1022 \<le> k \<and> k \<le> 1023 \<and> (2::real) powi k \<le> \<bar>x\<bar>}"
    then have "(2::real) powi k \<le> \<bar>x\<bar>" by simp
    with assms(2) have "(2::real) powi k < 2 powi (e + 1)" by linarith
    then have "k < e + 1" by (rule pow2_less_D)
    then show "k \<le> e" by simp
  next
    show "e \<in> {k. - 1022 \<le> k \<and> k \<le> 1023 \<and> (2::real) powi k \<le> \<bar>x\<bar>}"
      using assms by simp
  qed
  with big show ?thesis unfolding binade_def binade_set by simp
qed

lemma binade_small: "\<bar>x\<bar> < 2 powi (- 1022) \<Longrightarrow> binade x = - 1022"
  by (simp add: binade_def)

lemma binade_big:
  assumes "2 powi 1023 \<le> \<bar>x\<bar>"
  shows "binade x = 1023"
proof -
  have "(2::real) powi (- 1022) \<le> 2 powi 1023" by (rule pow2_mono) simp
  with assms have big: "\<not> \<bar>x\<bar> < 2 powi (- 1022)" by linarith
  have "Max {k. - 1022 \<le> k \<and> k \<le> 1023 \<and> (2::real) powi k \<le> \<bar>x\<bar>} = 1023"
  proof (rule Max_eqI)
    have "{k. - 1022 \<le> k \<and> k \<le> 1023 \<and> (2::real) powi k \<le> \<bar>x\<bar>} \<subseteq> {- 1022..1023}" by auto
    then show "finite {k. - 1022 \<le> k \<and> k \<le> 1023 \<and> (2::real) powi k \<le> \<bar>x\<bar>}"
      by (rule finite_subset) simp
  qed (use assms in auto)
  with big show ?thesis unfolding binade_def binade_set by simp
qed

text \<open>Every real lies in exactly one of the three cases.\<close>

lemma binade_cases:
  obtains (small) "\<bar>x\<bar> < 2 powi (- 1022)" "binade x = - 1022"
  | (normal) e where "- 1022 \<le> e" "e \<le> 1023" "2 powi e \<le> \<bar>x\<bar>" "\<bar>x\<bar> < 2 powi (e + 1)"
      "binade x = e"
  | (big) "2 powi 1024 \<le> \<bar>x\<bar>" "binade x = 1023"
proof -
  consider "\<bar>x\<bar> < 2 powi (- 1022)" | "2 powi (- 1022) \<le> \<bar>x\<bar>" "\<bar>x\<bar> < 2 powi 1024"
    | "2 powi 1024 \<le> \<bar>x\<bar>" by linarith
  then show ?thesis
  proof cases
    case 1
    then show ?thesis using small binade_small by blast
  next
    case 3
    have "(2::real) powi 1023 \<le> 2 powi 1024" by (rule pow2_mono) simp
    with 3 have "2 powi 1023 \<le> \<bar>x\<bar>" by linarith
    with 3 show ?thesis using big binade_big by blast
  next
    case 2
    define e where "e = \<lfloor>log 2 \<bar>x\<bar>\<rfloor>"
    from 2(1) have pos: "0 < \<bar>x\<bar>" using pow2_pos [of "- 1022"] by linarith
    have "2 powr (of_int e) \<le> \<bar>x\<bar>" and "\<bar>x\<bar> < 2 powr (of_int e + 1)"
      using pos floor_log_eq_powr_iff [of "\<bar>x\<bar>" 2 e] by (simp_all add: e_def)
    moreover have "(2::real) powr (of_int e + 1) = 2 powi (e + 1)"
      using pow2_powr [of "e + 1"] by simp
    ultimately have lo: "2 powi e \<le> \<bar>x\<bar>" and hi: "\<bar>x\<bar> < 2 powi (e + 1)"
      by (simp_all add: pow2_powr)
    from lo 2(2) have "(2::real) powi e < 2 powi 1024" by linarith
    then have "e < 1024" by (rule pow2_less_D)
    moreover from hi 2(1) have "(2::real) powi (- 1022) < 2 powi (e + 1)" by linarith
    then have "- 1022 < e + 1" by (rule pow2_less_D)
    ultimately have "- 1022 \<le> e" "e \<le> 1023" by simp_all
    with lo hi show ?thesis using normal binade_eqI by blast
  qed
qed

lemma binade_range: "- 1022 \<le> binade x \<and> binade x \<le> 1023"
  by (cases x rule: binade_cases) simp_all

lemma binade_upper:
  assumes "binade x < 1023"
  shows "\<bar>x\<bar> < 2 powi (binade x + 1)"
proof (cases x rule: binade_cases)
  case small
  have "(2::real) powi (- 1022) \<le> 2 powi (- 1022 + 1)" by (rule pow2_mono) simp
  with small show ?thesis by simp
next
  case (normal e)
  then show ?thesis by simp
next
  case big
  with assms show ?thesis by simp
qed

lemma binade_lower:
  assumes "- 1022 < binade x \<or> 2 powi (- 1022) \<le> \<bar>x\<bar>"
  shows "2 powi (binade x) \<le> \<bar>x\<bar>"
proof (cases x rule: binade_cases)
  case small
  with assms show ?thesis by simp
next
  case (normal e)
  then show ?thesis by simp
next
  case big
  have "(2::real) powi 1023 \<le> 2 powi 1024" by (rule pow2_mono) simp
  with big show ?thesis by simp
qed

lemma binade_minus: "binade (- x) = binade x"
  unfolding binade_def by (simp only: abs_minus_cancel)

lemma binade_mono:
  assumes "\<bar>x\<bar> \<le> \<bar>y\<bar>"
  shows "binade x \<le> binade y"
proof (rule ccontr)
  assume "\<not> binade x \<le> binade y"
  then have lt: "binade y < binade x" by simp
  with binade_range [of x] have "binade y < 1023" by simp
  then have "\<bar>y\<bar> < 2 powi (binade y + 1)" by (rule binade_upper)
  moreover from lt have "(2::real) powi (binade y + 1) \<le> 2 powi (binade x)"
    by (intro pow2_mono) simp
  moreover from lt binade_range [of y] have "- 1022 < binade x" by simp
  then have "2 powi (binade x) \<le> \<bar>x\<bar>" by (intro binade_lower) simp
  ultimately show False using assms by linarith
qed


subsection \<open>The nearest double\<close>

lemma quantum_pos: "0 < quantum x"
  by (simp add: quantum_def pow2_pos)

lemma quantum_minus: "quantum (- x) = quantum x"
  by (simp add: quantum_def binade_minus)

lemma rounded_minus: "rounded (- x) = - rounded x"
  by (simp add: rounded_def quantum_minus rne_minus)

lemma rounded_nonneg:
  assumes "0 \<le> x"
  shows "0 \<le> rounded x"
proof -
  from assms quantum_pos [of x] have "0 \<le> x / quantum x" by simp
  then have "0 \<le> rne (x / quantum x)" by (rule rne_nonneg)
  with quantum_pos [of x] show ?thesis by (simp add: rounded_def)
qed

lemma quantum_times: "quantum x * 2 ^ 52 = 2 powi (binade x)"
proof -
  have "(2::real) powi (binade x - 52) * 2 powi 52 = 2 powi (binade x - 52 + 52)"
    by (rule power_int_add [symmetric]) simp
  then show ?thesis by (simp add: quantum_def)
qed

lemma quantum_times': "quantum x * 2 ^ 53 = 2 powi (binade x + 1)"
proof -
  have "(2::real) powi (binade x - 52) * 2 powi 53 = 2 powi (binade x - 52 + 53)"
    by (rule power_int_add [symmetric]) simp
  moreover have "binade x - 52 + 53 = binade x + 1" by simp
  ultimately show ?thesis by (simp only: quantum_def power_int_numeral)
qed

text \<open>Rounding does not cross the powers of two that bound the binade.\<close>

lemma rounded_upper:
  assumes "0 \<le> x" and "x \<le> 2 powi (binade x + 1)"
  shows "rounded x \<le> 2 powi (binade x + 1)"
proof -
  from assms(2) have "x \<le> quantum x * 2 ^ 53" by (simp only: quantum_times')
  then have "x / quantum x \<le> quantum x * 2 ^ 53 / quantum x"
    using quantum_pos [of x] by (intro divide_right_mono) simp_all
  also have "\<dots> = 2 ^ 53"
    using quantum_pos [of x] by simp
  finally have "x / quantum x \<le> 2 ^ 53" .
  then have "rne (x / quantum x) \<le> rne (of_int (2 ^ 53))"
    by (intro rne_mono) simp
  then have "rne (x / quantum x) \<le> 2 ^ 53" by (simp only: rne_of_int)
  then have "real_of_int (rne (x / quantum x)) \<le> 2 ^ 53"
    by (metis of_int_le_iff of_int_numeral of_int_power)
  then have "rounded x \<le> quantum x * 2 ^ 53"
    unfolding rounded_def using quantum_pos [of x] by (intro mult_left_mono) simp_all
  then show ?thesis by (simp only: quantum_times')
qed

lemma rounded_lower:
  assumes "2 powi (binade x) \<le> x"
  shows "2 powi (binade x) \<le> rounded x"
proof -
  from assms have "quantum x * 2 ^ 52 \<le> x" by (simp only: quantum_times)
  then have "quantum x * 2 ^ 52 / quantum x \<le> x / quantum x"
    using quantum_pos [of x] by (intro divide_right_mono) simp_all
  moreover have "quantum x * 2 ^ 52 / quantum x = 2 ^ 52"
    using quantum_pos [of x] by simp
  ultimately have "2 ^ 52 \<le> x / quantum x" by (simp only:)
  then have "rne (of_int (2 ^ 52)) \<le> rne (x / quantum x)"
    by (intro rne_mono) simp
  then have "2 ^ 52 \<le> rne (x / quantum x)" by (simp only: rne_of_int)
  then have "2 ^ 52 \<le> real_of_int (rne (x / quantum x))"
    by (metis of_int_le_iff of_int_numeral of_int_power)
  then have "quantum x * 2 ^ 52 \<le> rounded x"
    unfolding rounded_def using quantum_pos [of x] by (intro mult_left_mono) simp_all
  then show ?thesis by (simp only: quantum_times)
qed

text \<open>Rounding is monotone, and its relative error is at most \<open>2 ^ - 53\<close>.\<close>

lemma rounded_mono_nonneg:
  assumes "0 \<le> x" and "x \<le> y"
  shows "rounded x \<le> rounded y"
proof (cases "binade x = binade y")
  case True
  then have q: "quantum x = quantum y" by (simp add: quantum_def)
  from assms(2) quantum_pos [of y] have "x / quantum y \<le> y / quantum y"
    by (simp add: divide_right_mono)
  then have "rne (x / quantum y) \<le> rne (y / quantum y)" by (rule rne_mono)
  then show ?thesis unfolding rounded_def q using quantum_pos [of y]
    by (intro mult_left_mono) simp_all
next
  case False
  from assms have "\<bar>x\<bar> \<le> \<bar>y\<bar>" by simp
  then have "binade x \<le> binade y" by (rule binade_mono)
  with False have lt: "binade x < binade y" by simp
  with binade_range [of y] have "binade x < 1023" by simp
  then have "\<bar>x\<bar> < 2 powi (binade x + 1)" by (rule binade_upper)
  with assms(1) have "rounded x \<le> 2 powi (binade x + 1)" by (intro rounded_upper) simp_all
  also from lt have "(2::real) powi (binade x + 1) \<le> 2 powi (binade y)"
    by (intro pow2_mono) simp
  also have "2 powi (binade y) \<le> rounded y"
  proof (rule rounded_lower)
    from lt binade_range [of x] have "- 1022 < binade y" by simp
    then have "2 powi (binade y) \<le> \<bar>y\<bar>" by (intro binade_lower) simp
    with assms show "2 powi (binade y) \<le> y" by simp
  qed
  finally show ?thesis .
qed

lemma rounded_mono:
  assumes "x \<le> y"
  shows "rounded x \<le> rounded y"
proof -
  consider "0 \<le> x" | "y \<le> 0" | "x < 0" "0 < y" by linarith
  then show ?thesis
  proof cases
    case 1
    with assms show ?thesis by (intro rounded_mono_nonneg)
  next
    case 2
    with assms have "rounded (- y) \<le> rounded (- x)" by (intro rounded_mono_nonneg) simp_all
    then show ?thesis by (simp add: rounded_minus)
  next
    case 3
    then have "0 \<le> rounded (- x)" and "0 \<le> rounded y" by (simp_all add: rounded_nonneg)
    then show ?thesis by (simp add: rounded_minus)
  qed
qed



lemma rounded_at:
  assumes "2 powi e \<le> \<bar>x\<bar>" and "\<bar>x\<bar> < 2 powi (e + 1)" and "- 1022 \<le> e" and "e \<le> 1023"
  shows "rounded x = 2 powi (e - 52) * of_int (rne (x / 2 powi (e - 52)))"
  using binade_eqI [OF assms] by (simp add: rounded_def quantum_def)

lemma rounded_0: "rounded 0 = 0"
  using rne_of_int [of 0] by (simp add: rounded_def)

text \<open>A double is its own rounding.\<close>

lemma rounded_of_int_quantum:
  assumes "x = quantum x * of_int m"
  shows "rounded x = x"
proof -
  from assms quantum_pos [of x] have "x / quantum x = of_int m" by (simp add: field_simps)
  then have "rne (x / quantum x) = m" by (simp only: rne_of_int)
  with assms show ?thesis by (simp add: rounded_def)
qed

lemma rounded_idem_nonneg:
  assumes "0 \<le> x"
  shows "rounded (rounded x) = rounded x"
proof -
  define y where "y = rounded x"
  define m where "m = rne (x / quantum x)"
  have y: "y = quantum x * of_int m" by (simp add: y_def m_def rounded_def)
  have y0: "0 \<le> y" unfolding y_def using assms by (rule rounded_nonneg)
  have "\<exists>k. y = quantum y * of_int k"
  proof (cases "binade y \<le> binade x")
    case True
    define n where "n = nat (binade x - binade y)"
    have "(2::real) powi (binade x - 52) = 2 powi (binade y - 52) * 2 powi (binade x - binade y)"
      using power_int_add [of "2::real" "binade y - 52" "binade x - binade y"] by simp
    moreover have "(2::real) powi (binade x - binade y) = 2 ^ n"
      using True by (simp add: n_def power_int_def)
    ultimately have "quantum x = quantum y * of_int (2 ^ n)" by (simp add: quantum_def)
    with y have "y = quantum y * of_int (2 ^ n * m)" by simp
    then show ?thesis ..
  next
    case False
    then have lt: "binade x < binade y" by simp
    with binade_range [of y] have "binade x < 1023" by simp
    then have "\<bar>x\<bar> < 2 powi (binade x + 1)" by (rule binade_upper)
    with assms have "rounded x \<le> 2 powi (binade x + 1)" by (intro rounded_upper) simp_all
    moreover from lt have "(2::real) powi (binade x + 1) \<le> 2 powi (binade y)"
      by (intro pow2_mono) simp
    moreover from lt binade_range [of x] have "- 1022 < binade y" by simp
    then have "2 powi (binade y) \<le> \<bar>y\<bar>" by (intro binade_lower) simp
    ultimately have "y = 2 powi (binade y)" using y0 by (simp add: y_def)
    then have "y = quantum y * of_int (2 ^ 52)" using quantum_times [of y] by simp
    then show ?thesis ..
  qed
  then obtain k where "y = quantum y * of_int k" ..
  then have "rounded y = y" by (rule rounded_of_int_quantum)
  then show ?thesis by (simp add: y_def)
qed

lemma rounded_idem: "rounded (rounded x) = rounded x"
proof (cases "0 \<le> x")
  case True
  then show ?thesis by (rule rounded_idem_nonneg)
next
  case False
  then have "rounded (rounded (- x)) = rounded (- x)" by (intro rounded_idem_nonneg) simp
  then show ?thesis by (simp add: rounded_minus)
qed


subsection \<open>Rounding to a number\<close>

lemma huge_pos: "0 < huge"
  by (simp add: huge_def)

lemma fl_not_NaN: "fl x \<noteq> NaN"
  by (simp add: fl_def)

lemma fl_Fin: "fl x = Fin y \<Longrightarrow> y = rounded x \<and> \<bar>y\<bar> < huge"
  by (auto simp add: fl_def split: if_splits)

lemma fl_PInf: "fl x = PInf \<longleftrightarrow> huge \<le> rounded x"
  by (simp add: fl_def)

lemma fl_NInf: "fl x = NInf \<longleftrightarrow> rounded x \<le> - huge"
proof (cases "huge \<le> rounded x")
  case True
  with huge_pos have "\<not> rounded x \<le> - huge" by linarith
  with True show ?thesis by (simp add: fl_def)
next
  case False
  then show ?thesis by (simp add: fl_def)
qed

lemma fl_mono:
  assumes "x \<le> y"
  shows "f64_le (fl x) (fl y)"
proof -
  from assms have "rounded x \<le> rounded y" by (rule rounded_mono)
  then show ?thesis by (auto simp add: fl_def)
qed

lemma fl_minus: "fl (- x) = f64_neg (fl x)"
  using huge_pos by (auto simp add: fl_def rounded_minus)

lemma fl_idem:
  assumes "fl x = Fin y"
  shows "fl y = Fin y"
proof -
  from fl_Fin [OF assms] have y: "y = rounded x" and b: "\<bar>y\<bar> < huge" by blast+
  then have "rounded y = y" by (simp add: rounded_idem)
  with b show ?thesis by (auto simp add: fl_def)
qed

lemma fl_0: "fl 0 = Fin 0"
  using huge_pos by (simp add: fl_def rounded_0)

lemma fl_1: "fl 1 = Fin 1"
proof -
  have "rounded 1 = 2 powi (0 - 52) * of_int (rne (1 / 2 powi (0 - 52)))"
    by (rule rounded_at) simp_all
  also have "\<dots> = 1" by (simp add: rne_def)
  finally show ?thesis by (simp add: fl_def huge_def)
qed

lemma fl_nonneg:
  assumes "0 \<le> x"
  shows "fl x = PInf \<or> (\<exists>y. fl x = Fin y \<and> 0 \<le> y)"
  using rounded_nonneg [OF assms] by (auto simp add: fl_def)

text \<open>
  Half the distance from 1 to the next double is \<open>2 ^ - 53\<close>: adding that much or less
  to 1 gives 1.
\<close>

lemma fl_one_plus:
  assumes "0 \<le> t" and "t \<le> 1 / 2 ^ 53"
  shows "fl (1 + t) = Fin 1"
proof -
  have "rounded (1 + t) = 2 powi (0 - 52) * of_int (rne ((1 + t) / 2 powi (0 - 52)))"
    using assms by (intro rounded_at) simp_all
  moreover have "rne ((1 + t) / 2 powi (0 - 52)) = 2 ^ 52"
  proof -
    have eq: "(1 + t) / 2 powi (0 - 52) = 2 ^ 52 + t * 2 ^ 52" by (simp add: field_simps)
    have "0 \<le> t * 2 ^ 52" and "t * 2 ^ 52 \<le> 1 / 2" using assms by simp_all
    then have "\<lfloor>2 ^ 52 + t * 2 ^ 52\<rfloor> = 2 ^ 52"
      by (intro floor_unique) simp_all
    then show ?thesis using \<open>t * 2 ^ 52 \<le> 1 / 2\<close> unfolding eq by (simp add: rne_def Let_def)
  qed
  ultimately have "rounded (1 + t) = 1" by simp
  then show ?thesis by (simp add: fl_def huge_def)
qed

lemma fl_Fin_I:
  assumes "rounded x = y" and "\<bar>y\<bar> < huge"
  shows "fl x = Fin y"
proof -
  from assms(2) have "\<not> huge \<le> y" and "\<not> y \<le> - huge" by linarith+
  with assms(1) show ?thesis by (simp add: fl_def)
qed

text \<open>The rounding of a real whose exponent and mantissa are known.\<close>

lemma fl_eval:
  assumes "2 powi e \<le> \<bar>x\<bar>" and "\<bar>x\<bar> < 2 powi (e + 1)" and "- 1022 \<le> e" and "e \<le> 1023"
    and "rne (x / 2 powi (e - 52)) = m" and "\<bar>2 powi (e - 52) * of_int m\<bar> < huge"
  shows "fl x = Fin (2 powi (e - 52) * of_int m)"
proof -
  have "rounded x = 2 powi (e - 52) * of_int m"
    using rounded_at [OF assms(1-4)] assms(5) by simp
  then show ?thesis using assms(6) by (rule fl_Fin_I)
qed

lemma fl_pow2:
  assumes "- 1022 \<le> k" and "k \<le> 1023"
  shows "fl (2 powi k) = Fin (2 powi k)"
proof -
  have pos: "0 < (2::real) powi k" by (rule pow2_pos)
  have lt: "(2::real) powi k < 2 powi (k + 1)" by (intro power_int_strict_increasing) simp_all
  have q: "(2::real) powi (k - 52) * 2 ^ 52 = 2 powi k"
    using power_int_add [of "2::real" "k - 52" 52] by simp
  then have "(2::real) powi k / 2 powi (k - 52) = of_int (2 ^ 52)"
    using pow2_pos [of "k - 52"] by (simp add: field_simps)
  then have m: "rne (2 powi k / 2 powi (k - 52)) = 2 ^ 52" by (simp only: rne_of_int)
  have "(2::real) powi k \<le> 2 powi 1023" using assms(2) by (rule pow2_mono)
  also have "(2::real) powi 1023 < huge" by (simp add: huge_def)
  finally have h: "(2::real) powi k < huge" .
  have "rounded (2 powi k) = 2 powi (k - 52) * of_int (rne (2 powi k / 2 powi (k - 52)))"
    using pos lt assms by (intro rounded_at) simp_all
  with m q have "rounded (2 powi k) = 2 powi k" by simp
  moreover from h pos have "\<bar>(2::real) powi k\<bar> < huge" by simp
  ultimately show ?thesis by (rule fl_Fin_I)
qed


subsection \<open>The order and the operations\<close>

lemma f64_le_fl: "x \<le> y \<Longrightarrow> f64_le (fl x) (fl y)"
  by (rule fl_mono)

lemma f64_le_refl: "a \<noteq> NaN \<Longrightarrow> f64_le a a"
  by (cases a) simp_all

lemma f64_le_trans: "f64_le a b \<Longrightarrow> f64_le b c \<Longrightarrow> f64_le a c"
  by (cases a; cases b; cases c) simp_all

lemma f64_le_Fin_fl:
  assumes "f64_le (Fin a) (fl x)" and "f64_le (fl x) (Fin b)"
  shows "\<exists>y. fl x = Fin y \<and> a \<le> y \<and> y \<le> b"
  using assms by (cases "fl x") simp_all

lemma f64_neg_anti: "f64_le a b \<Longrightarrow> f64_le (f64_neg b) (f64_neg a)"
  by (cases a; cases b) simp_all


lemma f64_add_not_NaN: "b \<noteq> NaN \<Longrightarrow> f64_add (Fin x) b \<noteq> NaN"
  by (cases b) (simp_all add: fl_not_NaN)

lemma f64_div_pos_mono:
  assumes "f64_le a b" and "0 < d"
  shows "f64_le (f64_div a (Fin d)) (f64_div b (Fin d))"
proof (cases a; cases b)
  fix x y assume "a = Fin x" "b = Fin y"
  with assms show ?thesis by (simp add: fl_mono divide_right_mono)
next
  fix x assume "a = Fin x" "b = PInf"
  with assms show ?thesis using fl_not_NaN [of "x / d"] by (cases "fl (x / d)") simp_all
next
  fix y assume "a = NInf" "b = Fin y"
  with assms show ?thesis using fl_not_NaN [of "y / d"] by (cases "fl (y / d)") simp_all
qed (use assms in simp_all)

lemma f64_div_pos_not_NaN: "a \<noteq> NaN \<Longrightarrow> 0 < d \<Longrightarrow> f64_div a (Fin d) \<noteq> NaN"
  by (cases a) (simp_all add: fl_not_NaN)


lemma f64_max_0_not_NaN: "a \<noteq> NaN \<Longrightarrow> f64_max (Fin 0) a \<noteq> NaN"
  by (cases a) simp_all

lemma f64_max_0_nonneg: "a \<noteq> NaN \<Longrightarrow> f64_le (Fin 0) (f64_max (Fin 0) a)"
  by (cases a) simp_all

lemma f64_pow_Fin: "f64_pow (Fin a) n = fl (a ^ n)"
  by (cases n) (simp_all add: fl_1)


subsection \<open>Doubles and bounds\<close>

text \<open>The integers of magnitude below \<open>2 ^ 53\<close> are doubles.\<close>

lemma fl_of_int:
  assumes "\<bar>k\<bar> < 2 ^ 53"
  shows "fl (of_int k) = Fin (of_int k)"
proof -
  define x :: real where "x = of_int k"
  from assms have ax: "\<bar>x\<bar> < 2 ^ 53" unfolding x_def
    by (metis of_int_abs of_int_less_iff of_int_numeral of_int_power)
  have b: "binade x \<le> 52"
  proof (rule ccontr)
    assume "\<not> binade x \<le> 52"
    then have "52 < binade x" by simp
    then have "2 powi (binade x) \<le> \<bar>x\<bar>" by (intro binade_lower) simp
    moreover from \<open>52 < binade x\<close> have "(2::real) powi 53 \<le> 2 powi (binade x)"
      by (intro pow2_mono) simp
    ultimately show False using ax by simp
  qed
  define j where "j = nat (52 - binade x)"
  have "quantum x * 2 powi (52 - binade x) = 2 powi (binade x - 52 + (52 - binade x))"
    unfolding quantum_def by (rule power_int_add [symmetric]) simp
  moreover have "(2::real) powi (52 - binade x) = 2 ^ j" using b by (simp add: j_def power_int_def)
  ultimately have "quantum x * 2 ^ j = 1" by simp
  then have "x = quantum x * of_int (2 ^ j * k)" by (simp add: x_def)
  then have "rounded x = x" by (rule rounded_of_int_quantum)
  moreover have "\<bar>x\<bar> < huge" using ax by (simp add: huge_def)
  ultimately show ?thesis unfolding x_def by (rule fl_Fin_I)
qed

lemma fl_numeral [simp]: "numeral w < (2::int) ^ 53 \<Longrightarrow> fl (numeral w) = Fin (numeral w)"
  using fl_of_int [of "numeral w"] by simp

lemma fl_0' [simp]: "fl 0 = Fin 0" by (rule fl_0)

lemma fl_1' [simp]: "fl 1 = Fin 1" by (rule fl_1)

lemma fl_neg_numeral [simp]:
  "numeral w < (2::int) ^ 53 \<Longrightarrow> fl (- numeral w) = Fin (- numeral w)"
  by (simp add: fl_minus)

text \<open>A rounded value lies between the doubles that enclose the real.\<close>

lemma fl_between_0_pow2:
  assumes "0 \<le> x" and "x \<le> 2 powi k" and "- 1022 \<le> k" and "k \<le> 1023"
  shows "\<exists>y. fl x = Fin y \<and> 0 \<le> y \<and> y \<le> 2 powi k"
proof -
  from assms(1) have "f64_le (fl 0) (fl x)" by (rule fl_mono)
  then have "f64_le (Fin 0) (fl x)" by (simp only: fl_0)
  moreover from assms(2) have "f64_le (fl x) (fl (2 powi k))" by (rule fl_mono)
  then have "f64_le (fl x) (Fin (2 powi k))" using assms(3,4) by (simp only: fl_pow2)
  ultimately show ?thesis by (rule f64_le_Fin_fl)
qed

lemma fl_between:
  assumes "fl a = Fin a" and "fl b = Fin b" and "a \<le> x" and "x \<le> b"
  shows "\<exists>y. fl x = Fin y \<and> a \<le> y \<and> y \<le> b"
proof -
  from assms(3) have "f64_le (fl a) (fl x)" by (rule fl_mono)
  then have "f64_le (Fin a) (fl x)" by (simp only: assms(1))
  moreover from assms(4) have "f64_le (fl x) (fl b)" by (rule fl_mono)
  then have "f64_le (fl x) (Fin b)" by (simp only: assms(2))
  ultimately show ?thesis by (rule f64_le_Fin_fl)
qed

lemma fl_one_plus_ulp: "fl (1 + 1 / 2 ^ 52) = Fin (1 + 1 / 2 ^ 52)"
  using fl_eval [of 0 "1 + 1 / 2 ^ 52" 4503599627370497]
  by (simp add: rne_def huge_def)

lemma fl_ulp: "fl (1 / 2 ^ 52) = Fin (1 / 2 ^ 52)"
  using fl_pow2 [of "- 52"] by (simp add: power_int_minus_divide)

lemma fl_power2:
  assumes "k \<le> 1000"
  shows "fl (2 ^ k) = Fin (2 ^ k)"
  using fl_pow2 [of "int k"] assms by simp

lemma fl_inverse_power2:
  assumes "k \<le> 1022"
  shows "fl (1 / 2 ^ k) = Fin (1 / 2 ^ k)"
  using fl_pow2 [of "- int k"] assms by (simp add: power_int_minus_divide)



text \<open>
  Between \<open>2 ^ - 53\<close> and \<open>2 ^ - 52\<close> the sum with 1 rounds up to the double that follows 1.
\<close>

lemma fl_one_plus_above:
  assumes "1 / 2 ^ 53 < t" and "t \<le> 1 / 2 ^ 52"
  shows "fl (1 + t) = Fin (1 + 1 / 2 ^ 52)"
proof -
  from assms have t0: "0 \<le> t" by simp
  have "rounded (1 + t) = 2 powi (0 - 52) * of_int (rne ((1 + t) / 2 powi (0 - 52)))"
    using assms t0 by (intro rounded_at) simp_all
  moreover have "rne ((1 + t) / 2 powi (0 - 52)) = 2 ^ 52 + 1"
  proof -
    have eq: "(1 + t) / 2 powi (0 - 52) = 2 ^ 52 + t * 2 ^ 52" by (simp add: field_simps)
    have half: "1 / 2 < t * 2 ^ 52" and one: "t * 2 ^ 52 \<le> 1" using assms by simp_all
    show ?thesis
    proof (cases "t * 2 ^ 52 = 1")
      case True
      then have "(1 + t) / 2 powi (0 - 52) = of_int (2 ^ 52 + 1)" unfolding eq by simp
      then show ?thesis by (simp only: rne_of_int)
    next
      case False
      with one have lt: "t * 2 ^ 52 < 1" by simp
      with half have "\<lfloor>2 ^ 52 + t * 2 ^ 52\<rfloor> = 2 ^ 52"
        by (intro floor_unique) simp_all
      then show ?thesis using half unfolding eq by (simp add: rne_def Let_def)
    qed
  qed
  ultimately have "rounded (1 + t) = 1 + 1 / 2 ^ 52" by (simp add: field_simps)
  then show ?thesis by (simp add: fl_def huge_def)
qed





section \<open>The amortization functions in double precision\<close>

subsection \<open>The growth factor\<close>



lemma factor_f64_idem:
  assumes "factor_f64 r k = Fin f"
  shows "fl f = Fin f"
proof (cases k)
  case 0
  with assms show ?thesis by (auto simp add: factor_f64_def)
next
  case (Suc j)
  with assms show ?thesis unfolding factor_f64_def
    by (cases "f64_add (Fin 1) (Fin r)") (auto simp add: f64_pow_Fin fl_idem split: if_splits)
qed

text \<open>
  For a monthly rate above \<open>2 ^ - 53\<close> and at most 1 and for at most 1000 months the
  factor is finite, and from one month on it exceeds 1 by at least \<open>2 ^ - 52\<close>, so that
  the denominator \<open>factor - 1\<close> is finite and positive.
\<close>

lemma factor_f64_bounds:
  assumes "1 / 2 ^ 53 < r" and "r \<le> 1" and "k \<le> 1000"
  shows "\<exists>f. factor_f64 r k = Fin f \<and> f \<le> 2 ^ k \<and> (1 \<le> k \<longrightarrow> 1 + 1 / 2 ^ 52 \<le> f)"
proof -
  have two: "fl 2 = Fin 2" by simp
  have "\<exists>x. fl (1 + r) = Fin x \<and> 1 + 1 / 2 ^ 52 \<le> x \<and> x \<le> 2"
  proof (cases "r \<le> 1 / 2 ^ 52")
    case True
    with assms(1) have "fl (1 + r) = Fin (1 + 1 / 2 ^ 52)" by (rule fl_one_plus_above)
    moreover have "(1 + 1 / 2 ^ 52 :: real) \<le> 1 + 1 / 2 ^ 52" by (rule order_refl)
    moreover have "(1 + 1 / 2 ^ 52 :: real) \<le> 2" by simp
    ultimately show ?thesis by blast
  next
    case False
    with assms(2) have "1 + 1 / 2 ^ 52 \<le> 1 + r" and "1 + r \<le> 2" by simp_all
    with fl_one_plus_ulp two show ?thesis using fl_between by blast
  qed
  then obtain x
    where x: "fl (1 + r) = Fin x" and lo: "1 + 1 / 2 ^ 52 \<le> x" and hi: "x \<le> 2"
    by blast
  from lo have x1: "1 \<le> x" by simp
  have fac: "factor_f64 r k = fl (x ^ k)" by (simp add: factor_f64_def x f64_pow_Fin)
  from x1 hi have up: "x ^ k \<le> 2 ^ k" by (intro power_mono) simp_all
  from assms(3) have p2: "fl (2 ^ k) = Fin (2 ^ k)" by (rule fl_power2)
  show ?thesis
  proof (cases "k = 0")
    case True
    then show ?thesis by (simp add: factor_f64_def)
  next
    case False
    then have "x ^ 1 \<le> x ^ k" using x1 by (intro power_increasing) simp_all
    then have "x \<le> x ^ k" by simp
    moreover from x have "fl x = Fin x" by (rule fl_idem)
    ultimately obtain f where "fl (x ^ k) = Fin f" and "x \<le> f" and "f \<le> 2 ^ k"
      using p2 up fl_between by blast
    with lo show ?thesis by (simp add: fac)
  qed
qed

lemma denominator_f64_bounds:
  assumes "1 / 2 ^ 53 < r" and "r \<le> 1" and "1 \<le> n" and "n \<le> 1000"
  shows "\<exists>d. f64_sub (factor_f64 r n) (Fin 1) = Fin d \<and> 1 / 2 ^ 52 \<le> d \<and> d \<le> 2 ^ n"
proof -
  from assms obtain f where f: "factor_f64 r n = Fin f" and "f \<le> 2 ^ n"
      and "1 + 1 / 2 ^ 52 \<le> f"
    using factor_f64_bounds [of r n] by blast
  then have "1 / 2 ^ 52 \<le> f - 1" and "f - 1 \<le> 2 ^ n" by simp_all
  moreover from assms(4) have "fl (2 ^ n) = Fin (2 ^ n)" by (rule fl_power2)
  ultimately obtain d where "fl (f - 1) = Fin d" and "1 / 2 ^ 52 \<le> d" and "d \<le> 2 ^ n"
    using fl_ulp fl_between by blast
  then show ?thesis by (simp add: f f64_sub_def)
qed


subsection \<open>The monthly payment\<close>

text \<open>
  At rate 0 the payment is the rounded quotient of the principal and the number of
  months: not negative, and 0 for a principal of 0.
\<close>

lemma calculateMonthlyPayment_f64_zero_rate:
  "calculateMonthlyPayment_f64 P 0 t =
     (if t = 0 then (if P = 0 then NaN else if 0 < P then PInf else NInf)
      else fl (P / real (t * 12)))"
  by (simp add: calculateMonthlyPayment_f64_def)

lemma calculateMonthlyPayment_f64_zero_rate_nonneg:
  assumes "0 \<le> P" and "1 \<le> t"
  shows "f64_le (Fin 0) (calculateMonthlyPayment_f64 P 0 t)"
    and "calculateMonthlyPayment_f64 0 0 t = Fin 0"
proof -
  from assms have "0 \<le> P / real (t * 12)" by simp
  then have "f64_le (fl 0) (fl (P / real (t * 12)))" by (rule fl_mono)
  with assms(2) show "f64_le (Fin 0) (calculateMonthlyPayment_f64 P 0 t)"
    by (simp add: calculateMonthlyPayment_f64_zero_rate)
  from assms(2) show "calculateMonthlyPayment_f64 0 0 t = Fin 0"
    by (simp add: calculateMonthlyPayment_f64_zero_rate)
qed

text \<open>
  From an annual rate of \<open>2 ^ - 41\<close> percent on the monthly rate is at least \<open>2 ^ - 52\<close>,
  and for a term of at most 50 years the payment is not negative (it is a finite number
  or \<open>Infinity\<close>).
\<close>

lemma ordinary_monthlyRate:
  assumes "1 / 2 ^ 41 \<le> r" and "r \<le> 30"
  shows "\<exists>m. f64_div (f64_div (Fin r) (Fin 100)) (Fin 12) = Fin m \<and> 1 / 2 ^ 52 \<le> m \<and> m \<le> 1"
proof -
  have p48: "fl (1 / 2 ^ 48) = Fin (1 / 2 ^ 48)"
    using fl_pow2 [of "- 48"] by (simp add: power_int_minus_divide)
  have one: "fl 1 = Fin 1" by simp
  from assms have "1 / 2 ^ 48 \<le> r / 100" and "r / 100 \<le> 1" by simp_all
  with p48 one obtain a where a: "fl (r / 100) = Fin a" and alo: "1 / 2 ^ 48 \<le> a" and ahi: "a \<le> 1"
    using fl_between by blast
  from alo ahi have "1 / 2 ^ 52 \<le> a / 12" and "a / 12 \<le> 1" by simp_all
  with fl_ulp one obtain m where "fl (a / 12) = Fin m" and "1 / 2 ^ 52 \<le> m" and "m \<le> 1"
    using fl_between by blast
  with a show ?thesis by simp
qed

lemma calculateMonthlyPayment_f64_ordinary_rate_nonneg:
  assumes "0 \<le> P" and "1 / 2 ^ 41 \<le> r" and "r \<le> 30" and "1 \<le> t" and "t \<le> 50"
  shows "f64_le (Fin 0) (calculateMonthlyPayment_f64 P r t)"
proof -
  from assms(2) have r0: "r \<noteq> 0" by auto
  from assms(2,3) obtain m where m: "f64_div (f64_div (Fin r) (Fin 100)) (Fin 12) = Fin m"
      and mlo: "1 / 2 ^ 52 \<le> m" and mhi: "m \<le> 1"
    using ordinary_monthlyRate by blast
  from mlo have m0: "0 \<le> m" by (rule order_trans [rotated]) simp
  from mlo have mlo': "1 / 2 ^ 53 < m" by (rule less_le_trans [rotated]) simp
  from assms(4,5) have n: "1 \<le> t * 12" "t * 12 \<le> 1000" by simp_all
  from mlo' mhi n obtain f where f: "factor_f64 m (t * 12) = Fin f" and fhi: "f \<le> 2 ^ (t * 12)"
      and flo: "1 + 1 / 2 ^ 52 \<le> f"
    using factor_f64_bounds [of m "t * 12"] by blast
  from mlo' mhi n obtain d where d: "f64_sub (factor_f64 m (t * 12)) (Fin 1) = Fin d"
      and dlo: "1 / 2 ^ 52 \<le> d"
    using denominator_f64_bounds [of m "t * 12"] by blast
  from dlo have d0: "0 < d" by (rule less_le_trans [rotated]) simp
  from flo have f0: "0 \<le> f" by (rule order_trans [rotated]) simp
  \<comment> \<open>\<open>monthlyRate * factor\<close> is a finite number\<close>
  from f have ff: "fl f = Fin f" by (rule factor_f64_idem)
  have "0 \<le> m * f" and "m * f \<le> f" using m0 mhi f0 by (simp_all add: mult_left_le_one_le)
  with ff obtain q where q: "fl (m * f) = Fin q" and q0: "0 \<le> q"
    using fl_between [of 0 f "m * f"] by auto
  \<comment> \<open>the numerator is not negative\<close>
  from assms(1) q0 have "f64_le (fl 0) (fl (P * q))" by (intro fl_mono) simp
  then have "f64_le (Fin 0) (fl (P * q))" by simp
  then have "f64_le (f64_div (Fin 0) (Fin d)) (f64_div (fl (P * q)) (Fin d))"
    using d0 by (rule f64_div_pos_mono)
  moreover have "f64_div (Fin 0) (Fin d) = Fin 0" using d0 by simp
  moreover have "calculateMonthlyPayment_f64 P r t = f64_div (fl (P * q)) (Fin d)"
    using r0 d f q unfolding calculateMonthlyPayment_f64_def Let_def m factor_f64_def [symmetric]
    by simp
  ultimately show ?thesis by simp
qed

text \<open>
  The monthly rate of a positive annual rate of at most \<open>2 ^ - 44\<close> percent is at most
  \<open>2 ^ - 53\<close>, half the distance from 1 to the next double, so that \<open>1 + monthlyRate\<close>
  is 1, the factor is 1 and \<open>factor - 1\<close> is 0. With a principal of 0 the payment is
  \<open>0 / 0\<close>; with a positive principal it is infinite.
\<close>

lemma tiny_monthlyRate:
  assumes "0 < r" and "r \<le> 1 / 2 ^ 44"
  shows "\<exists>m. f64_div (f64_div (Fin r) (Fin 100)) (Fin 12) = Fin m \<and> 0 \<le> m \<and> m \<le> 1 / 2 ^ 53"
proof -
  have "r / 100 \<le> 2 powi (- 50)" using assms(2) by simp
  with assms(1) obtain a where a: "fl (r / 100) = Fin a" "0 \<le> a" "a \<le> 2 powi (- 50)"
    using fl_between_0_pow2 [of "r / 100" "- 50"] by auto
  have "a / 12 \<le> 2 powi (- 53)" using a(3) by simp
  with a(2) obtain m where m: "fl (a / 12) = Fin m" "0 \<le> m" "m \<le> 2 powi (- 53)"
    using fl_between_0_pow2 [of "a / 12" "- 53"] by auto
  from m(3) have "m \<le> 1 / 2 ^ 53" by simp
  with a(1) m(1,2) show ?thesis by simp
qed

lemma calculateMonthlyPayment_f64_tiny_rate:
  assumes "0 < r" and "r \<le> 1 / 2 ^ 44"
  shows "calculateMonthlyPayment_f64 0 r t = NaN"
proof -
  from assms obtain m where m: "f64_div (f64_div (Fin r) (Fin 100)) (Fin 12) = Fin m"
    and m0: "0 \<le> m" and m1: "m \<le> 1 / 2 ^ 53"
    using tiny_monthlyRate by blast
  from m0 m1 have one: "f64_add (Fin 1) (Fin m) = Fin 1" by (simp add: fl_one_plus)
  have factor: "f64_pow (Fin 1) (t * 12) = Fin 1" by (simp add: f64_pow_Fin)
  have d: "f64_sub (Fin 1) (Fin 1) = Fin 0" by (simp add: f64_sub_def)
  obtain y where y: "f64_mul (Fin m) (Fin 1) = Fin y"
    using m m0 m1 fl_between_0_pow2 [of m "- 53"] by auto
  have "f64_mul (Fin 0) (Fin y) = Fin 0" by simp
  with assms(1) m one factor d y show ?thesis
    by (simp add: calculateMonthlyPayment_f64_def Let_def)
qed

lemma calculateMonthlyPayment_f64_tiny_rate_PInf:
  "calculateMonthlyPayment_f64 100000 (1 / 2 ^ 60) 30 = PInf"
proof -
  have p67: "fl (1 / 2 ^ 67) = Fin (1 / 2 ^ 67)" by (rule fl_inverse_power2) simp
  have p66: "fl (1 / 2 ^ 66) = Fin (1 / 2 ^ 66)" by (rule fl_inverse_power2) simp
  have p71: "fl (1 / 2 ^ 71) = Fin (1 / 2 ^ 71)" by (rule fl_inverse_power2) simp
  have p69: "fl (1 / 2 ^ 69) = Fin (1 / 2 ^ 69)" by (rule fl_inverse_power2) simp
  have p0: "fl (1 / 2 ^ 0) = Fin (1 / 2 ^ 0)" by (rule fl_inverse_power2) simp
  have "(1::real) / 2 ^ 67 \<le> 1 / 2 ^ 60 / 100" and "(1::real) / 2 ^ 60 / 100 \<le> 1 / 2 ^ 66"
    by simp_all
  with p67 p66 obtain a where a: "fl (1 / 2 ^ 60 / 100) = Fin a"
      and alo: "1 / 2 ^ 67 \<le> a" and ahi: "a \<le> 1 / 2 ^ 66"
    using fl_between by blast
  from alo ahi have "1 / 2 ^ 71 \<le> a / 12" and "a / 12 \<le> 1 / 2 ^ 69" by simp_all
  with p71 p69 obtain m where m: "fl (a / 12) = Fin m"
      and mlo: "1 / 2 ^ 71 \<le> m" and mhi: "m \<le> 1 / 2 ^ 69"
    using fl_between by blast
  have rate: "f64_div (f64_div (Fin (1 / 2 ^ 60)) (Fin 100)) (Fin 12) = Fin m"
    using a m by simp
  from mlo have m0: "0 \<le> m" by (rule order_trans [rotated]) simp
  from mhi have m1: "m \<le> 1 / 2 ^ 53" by (rule order_trans) simp
  from m0 m1 have one: "f64_add (Fin 1) (Fin m) = Fin 1" by (simp add: fl_one_plus)
  have factor: "f64_pow (Fin 1) (30 * 12) = Fin 1" by (simp add: f64_pow_Fin)
  have d: "f64_sub (Fin 1) (Fin 1) = Fin 0" by (simp add: f64_sub_def)
  from m have y: "f64_mul (Fin m) (Fin 1) = Fin m" by (simp add: fl_idem)
  from mlo mhi have "1 / 2 ^ 71 \<le> 100000 * m" and "100000 * m \<le> 1 / 2 ^ 0" by simp_all
  with p71 p0 obtain q where q: "fl (100000 * m) = Fin q" and qlo: "1 / 2 ^ 71 \<le> q"
    using fl_between by blast
  from qlo have q0: "0 < q" by (rule less_le_trans [rotated]) simp
  have "calculateMonthlyPayment_f64 100000 (1 / 2 ^ 60) 30 = f64_div (Fin q) (Fin 0)"
    unfolding calculateMonthlyPayment_f64_def Let_def rate one factor d y
    using q by simp
  with q0 show ?thesis by simp
qed

text \<open>
  C7. The claim: for a principal that is not negative, an annual rate between 0 and 30
  percent and a term of at least one year, the monthly payment is not negative; at rate
  0 it is the principal over the number of months; for a principal of 0 it is 0; a
  zero-interest loan never divides by zero. The function guards its division with
  \<open>annualRate === 0\<close> only, and the denominator \<open>factor - 1\<close> is also 0 for the positive
  rates so small that \<open>1 + monthlyRate\<close> rounds to 1: for a principal of 0, an annual
  rate of \<open>2 ^ - 60\<close> percent (a double) and a term of 30 years the function returns
  NaN, which is neither 0 nor at least 0.
\<close>

theorem calculateMonthlyPayment_f64_tiny_rate_NaN:
  "is_double (1 / 2 ^ 60)
   \<and> calculateMonthlyPayment_f64 0 (1 / 2 ^ 60) 30 = NaN
   \<and> \<not> f64_le (Fin 0) (calculateMonthlyPayment_f64 0 (1 / 2 ^ 60) 30)
   \<and> calculateMonthlyPayment_f64 0 (1 / 2 ^ 60) 30 \<noteq> Fin 0"
proof -
  have double: "is_double (1 / 2 ^ 60)"
    unfolding is_double_def by (rule fl_inverse_power2) simp
  have nan: "calculateMonthlyPayment_f64 0 (1 / 2 ^ 60) 30 = NaN"
    by (rule calculateMonthlyPayment_f64_tiny_rate) simp_all
  have "\<not> f64_le (Fin 0) (calculateMonthlyPayment_f64 0 (1 / 2 ^ 60) 30)"
    and "calculateMonthlyPayment_f64 0 (1 / 2 ^ 60) 30 \<noteq> Fin 0"
    unfolding nan by simp_all
  with double nan show ?thesis by blast
qed


subsection \<open>The remaining balance\<close>




lemma calculateRemainingBalance_f64_zero_rate_overpaid: "calculateRemainingBalance_f64 180000 0 180 182 = Fin (- 2000)"
  by (simp add: calculateRemainingBalance_f64_def f64_sub_def fl_minus [of 2000, simplified])














end
